theory Spec2Isabelle
  imports Main
begin

section \<open>Daily Report Processor: values, tables and exceptions\<close>

text \<open>
  The program reads tab-delimited POS exports with pandas, merges them, and derives three
  tables. A cell of a table is one of the values pandas puts there: the missing-value
  markers \<open>NaN\<close> and \<open>NaT\<close>, a Python \<open>str\<close>, a number (the type \<open>'n\<close> of numbers is left
  open: the program never computes with them, it only compares them), a timestamp
  (nanoseconds since the epoch) or a calendar date (days since the epoch).
  The strings in the cells of the examples are ASCII text, written as \<open>string\<close>s.
\<close>

datatype 'n cell = NaN | NaT | Str string | Num 'n | Timestamp int | DateV int

text \<open>
  A DataFrame is its columns in order: a label and the values of the column, top to
  bottom. Every column of a DataFrame has the same length and labels are not repeated
  (\<open>read_csv\<close> renames repeated headers); \<open>wf_df\<close> says so.
\<close>

type_synonym 'n dataframe = "(string \<times> 'n cell list) list"

definition columns :: "'n dataframe \<Rightarrow> string list" where
  "columns df = map fst df"

definition nrows :: "'n dataframe \<Rightarrow> nat" where
  "nrows df = (case df of [] \<Rightarrow> 0 | col # _ \<Rightarrow> length (snd col))"

definition wf_df :: "'n dataframe \<Rightarrow> bool" where
  "wf_df df = (distinct (map fst df) \<and> list_all (\<lambda>col. length (snd col) = nrows df) df)"

text \<open>\<open>all_len n df\<close>: every column of \<open>df\<close> has \<open>n\<close> values.\<close>

definition all_len :: "nat \<Rightarrow> 'n dataframe \<Rightarrow> bool" where
  "all_len n df = (\<forall>col\<in>set df. length (snd col) = n)"

text \<open>\<open>df.empty\<close>: no column or no row.\<close>

definition df_empty :: "'n dataframe \<Rightarrow> bool" where
  "df_empty df = (df = [] \<or> nrows df = 0)"

text \<open>
  The exceptions that the program can meet. \<open>KeyError\<close> carries the labels that were not
  found; the others carry their message.
\<close>

datatype exn =
    KeyError "string list"
  | ValueError string
  | IndexError string
  | UnicodeDecodeError string
  | OtherError string

section \<open>The text normalizer: \<open>clean_dish_name\<close>\<close>

text \<open>
  A Python \<open>str\<close> is the list of its code points. What \<open>str.upper()\<close>, \<open>c.isdigit()\<close> and
  the white space of \<open>str.split()\<close> do with a code point is Python's Unicode database; it is
  a parameter of the normalizer: \<open>db_upper\<close> gives the upper case of one character (one or
  more characters: Python upper-cases a string character by character), \<open>db_isdigit\<close> and
  \<open>db_isspace\<close> say which characters are digits and white space.
\<close>

record chardb =
  db_upper :: "nat \<Rightarrow> nat list"
  db_isdigit :: "nat \<Rightarrow> bool"
  db_isspace :: "nat \<Rightarrow> bool"

text \<open>The code points of a literal of the source.\<close>

definition ascii :: "string \<Rightarrow> nat list" where
  "ascii s = map of_char s"

definition upper :: "chardb \<Rightarrow> nat list \<Rightarrow> nat list" where
  "upper db text = concat (map (db_upper db) text)"

fun starts_with :: "'a list \<Rightarrow> 'a list \<Rightarrow> bool" where
  "starts_with [] s = True"
| "starts_with (p # ps) [] = False"
| "starts_with (p # ps) (c # cs) = (p = c \<and> starts_with ps cs)"

text \<open>
  \<open>text.replace(old, new)\<close>: scan left to right, replace each occurrence of \<open>old\<close> and go on
  after it (occurrences do not overlap); an empty \<open>old\<close> matches before every character and
  at the end.
\<close>

fun replace :: "'a list \<Rightarrow> 'a list \<Rightarrow> 'a list \<Rightarrow> 'a list" where
  "replace old new [] = (if old = [] then new else [])"
| "replace old new (c # cs) =
     (if old = [] then new @ c # replace old new cs
      else if starts_with old (c # cs) then new @ replace old new (drop (length old - 1) cs)
      else c # replace old new cs)"

text \<open>\<open>text.split()\<close>: the maximal runs of characters that are not white space.\<close>

fun split_from :: "chardb \<Rightarrow> nat list \<Rightarrow> nat list \<Rightarrow> nat list list" where
  "split_from db w [] = (if w = [] then [] else [w])"
| "split_from db w (c # cs) =
     (if db_isspace db c then (if w = [] then split_from db [] cs else w # split_from db [] cs)
      else split_from db (w @ [c]) cs)"

definition split :: "chardb \<Rightarrow> nat list \<Rightarrow> nat list list" where
  "split db text = split_from db [] text"

fun join :: "'a list \<Rightarrow> 'a list list \<Rightarrow> 'a list" where
  "join sep [] = []"
| "join sep [w] = w"
| "join sep (w # ws) = w @ sep @ join sep ws"

text \<open>
  The dictionary \<open>replacements\<close>, in insertion order (the order in which the loop visits
  it). The fourth key is the two characters backslash and \<open>n\<close>.
\<close>

definition replacements :: "(string \<times> string) list" where
  "replacements =
     [(''W/'', ''WITH''), (''&'', ''AND''), ('' WIT '', '' WITH ''),
      ([CHR 0x5C, CHR ''n''], '' ''), (''PCS'', [])]"

text \<open>The body of \<open>clean_dish_name\<close> for a \<open>str\<close> argument (lines 51-64).\<close>

definition clean_dish_name_str :: "chardb \<Rightarrow> nat list \<Rightarrow> nat list" where
  "clean_dish_name_str db text =
     (let t1 = fold (\<lambda>ch t. replace (ascii ch) [] t) [''('', '')'', ''.'', ''@''] text;
          t2 = fold (\<lambda>(key, val) t. replace (ascii key) (ascii val) t) replacements t1;
          t3 = filter (\<lambda>c. \<not> db_isdigit db c) t2
      in join (ascii '' '') (split db (upper db t3)))"

text \<open>\<open>occurs k t\<close>: the string \<open>k\<close> occurs in \<open>t\<close> (Python's \<open>k in t\<close>).\<close>

fun occurs :: "'a list \<Rightarrow> 'a list \<Rightarrow> bool" where
  "occurs k [] = starts_with k []"
| "occurs k (c # cs) = (starts_with k (c # cs) \<or> occurs k cs)"

text \<open>
  Three facts of the Unicode database, and three of the space character, that the
  normalizer's behaviour on its own output rests on: every character of the upper case of a
  character is its own upper case; the upper case of a character that is not a digit has no
  digit; the upper case of a character other than \<open>(\<close>, \<open>)\<close>, \<open>.\<close> and \<open>@\<close> has none of
  these four; the space is white space, is not a digit and is its own upper case.
\<close>

definition unicode_facts :: "chardb \<Rightarrow> bool" where
  "unicode_facts db =
     ((\<forall>c. \<forall>d\<in>set (db_upper db c). db_upper db d = [d]) \<and>
      (\<forall>c. \<not> db_isdigit db c \<longrightarrow> (\<forall>d\<in>set (db_upper db c). \<not> db_isdigit db d)) \<and>
      (\<forall>c. c \<notin> {40, 41, 46, 64} \<longrightarrow> (\<forall>d\<in>set (db_upper db c). d \<notin> {40, 41, 46, 64})) \<and>
      db_isspace db 32 \<and> \<not> db_isdigit db 32 \<and> db_upper db 32 = [32])"

text \<open>
  \<open>plain db c\<close>: the character is none of the four removed symbols, is not a digit and is
  its own upper case. These are the characters that the normalizer leaves alone.
\<close>

definition plain :: "chardb \<Rightarrow> nat \<Rightarrow> bool" where
  "plain db c = (c \<notin> {40, 41, 46, 64} \<and> \<not> db_isdigit db c \<and> db_upper db c = [c])"

text \<open>
  The part of the database that covers ASCII: the digits \<open>0\<close> to \<open>9\<close>, the white space
  of \<open>str.split()\<close> (tab to carriage return, the four separators, the space) and the
  upper case of \<open>a\<close> to \<open>z\<close>. It is what the examples run with.
\<close>

definition ascii_db :: chardb where
  "ascii_db =
     \<lparr>db_upper = (\<lambda>c. if 97 \<le> c \<and> c \<le> 122 then [c - 32] else [c]),
      db_isdigit = (\<lambda>c. 48 \<le> c \<and> c \<le> 57),
      db_isspace = (\<lambda>c. (9 \<le> c \<and> c \<le> 13) \<or> (28 \<le> c \<and> c \<le> 32))\<rparr>"

text \<open>The normalizer on the ASCII strings of the example tables.\<close>

definition clean_text :: "string \<Rightarrow> string" where
  "clean_text text = map char_of (clean_dish_name_str ascii_db (ascii text))"

text \<open>\<open>clean_dish_name\<close> takes any value: what is not a \<open>str\<close> gives the empty string.\<close>

fun clean_dish_name :: "'n cell \<Rightarrow> string" where
  "clean_dish_name (Str text) = clean_text text"
| "clean_dish_name _ = []"

section \<open>The file ingestor: \<open>merge_files\<close>\<close>

text \<open>
  What \<open>pd.read_csv(file, header=2, sep='\t', encoding=...)\<close> does with a file is an input of
  the model: it returns a table, raises \<open>UnicodeDecodeError\<close>, or raises another exception.
  A file is its name and the outcome of reading it under each of the two encodings.
\<close>

datatype 'n read_result = Parsed "'n dataframe" | DecodeFailure string | ReadFailure string

record 'n xls_file =
  file_name :: string
  read_gbk :: "'n read_result"
  read_utf8 :: "'n read_result"

definition error_line :: "string \<Rightarrow> string \<Rightarrow> string" where
  "error_line fname msg =
     ''[ERROR] Could not read '' @ [CHR 0x27] @ fname @ [CHR 0x27] @ '': '' @ msg"

text \<open>
  The loop over the files, with the lines printed so far and \<open>all_dfs\<close>. The second
  \<open>read_csv\<close> runs inside the handler of \<open>UnicodeDecodeError\<close>: what it raises is not seen by
  the clauses of the same \<open>try\<close> and leaves the function.
\<close>

fun merge_loop ::
  "'n xls_file list \<Rightarrow> string list \<Rightarrow> 'n dataframe list \<Rightarrow> exn + (string list \<times> 'n dataframe list)"
where
  "merge_loop [] out all_dfs = Inr (out, all_dfs)"
| "merge_loop (f # fs) out all_dfs =
     (case read_gbk f of
        Parsed df \<Rightarrow> merge_loop fs out (all_dfs @ [df])
      | DecodeFailure m \<Rightarrow>
          (case read_utf8 f of
             Parsed df \<Rightarrow> merge_loop fs out (all_dfs @ [df])
           | DecodeFailure m' \<Rightarrow> Inl (UnicodeDecodeError m')
           | ReadFailure m' \<Rightarrow> Inl (OtherError m'))
      | ReadFailure m \<Rightarrow> merge_loop fs (out @ [error_line (file_name f) m]) all_dfs)"

text \<open>
  \<open>pd.concat(all_dfs, ignore_index=True)\<close>: the union of the columns in order of first
  appearance, each frame contributing its column or as many \<open>NaN\<close> as it has rows. The
  values are kept as they were read: the change of number type that pandas makes in a column
  that receives \<open>NaN\<close> is not modelled.
\<close>

fun first_seen :: "'a list \<Rightarrow> 'a list \<Rightarrow> 'a list" where
  "first_seen seen [] = []"
| "first_seen seen (x # xs) =
     (if x \<in> set seen then first_seen seen xs else x # first_seen (x # seen) xs)"

definition concat_frames :: "'n dataframe list \<Rightarrow> 'n dataframe" where
  "concat_frames dfs =
     map (\<lambda>label.
            (label,
             concat (map (\<lambda>df. case map_of df label of
                                  Some xs \<Rightarrow> xs
                                | None \<Rightarrow> replicate (nrows df) NaN) dfs)))
         (first_seen [] (concat (map columns dfs)))"

definition merge_files :: "'n xls_file list \<Rightarrow> exn + (string list \<times> 'n dataframe)" where
  "merge_files files =
     (case merge_loop files [] [] of
        Inl e \<Rightarrow> Inl e
      | Inr (out, all_dfs) \<Rightarrow> Inr (out, if all_dfs \<noteq> [] then concat_frames all_dfs else []))"

section \<open>The reconciliation engine: \<open>process_report\<close>\<close>

fun isna :: "'n cell \<Rightarrow> bool" where
  "isna NaN = True"
| "isna NaT = True"
| "isna _ = False"

text \<open>\<open>Series.ffill()\<close>: a missing value takes the last value seen that is not missing.\<close>

fun ffill_from :: "'n cell option \<Rightarrow> 'n cell list \<Rightarrow> 'n cell list" where
  "ffill_from prev [] = []"
| "ffill_from prev (x # xs) =
     (if isna x then (case prev of None \<Rightarrow> x | Some v \<Rightarrow> v) # ffill_from prev xs
      else x # ffill_from (Some x) xs)"

definition ffill :: "'n cell list \<Rightarrow> 'n cell list" where
  "ffill xs = ffill_from None xs"

text \<open>\<open>df[labels]\<close>: the columns asked for, in that order; \<open>KeyError\<close> when one is absent.\<close>

definition getitem_columns :: "string list \<Rightarrow> 'n dataframe \<Rightarrow> exn + 'n dataframe" where
  "getitem_columns labels df =
     (let missing = filter (\<lambda>l. l \<notin> set (columns df)) labels
      in if missing \<noteq> [] then Inl (KeyError missing)
         else Inr (map (\<lambda>l. (l, the (map_of df l))) labels))"

text \<open>\<open>df[label]\<close>.\<close>

definition getitem :: "string \<Rightarrow> 'n dataframe \<Rightarrow> exn + 'n cell list" where
  "getitem label df = (case map_of df label of None \<Rightarrow> Inl (KeyError [label]) | Some xs \<Rightarrow> Inr xs)"

text \<open>\<open>df[label] = values\<close>: replaces the column in place, or appends a new one.\<close>

definition setitem :: "string \<Rightarrow> 'n cell list \<Rightarrow> 'n dataframe \<Rightarrow> 'n dataframe" where
  "setitem label vs df =
     (if label \<in> set (columns df)
      then map (\<lambda>col. if fst col = label then (label, vs) else col) df
      else df @ [(label, vs)])"

text \<open>\<open>df[labels] = sub\<close> for columns that exist: each takes its new values.\<close>

definition setitem_columns :: "'n dataframe \<Rightarrow> 'n dataframe \<Rightarrow> 'n dataframe" where
  "setitem_columns sub df =
     map (\<lambda>col. case map_of sub (fst col) of Some vs \<Rightarrow> (fst col, vs) | None \<Rightarrow> col) df"

definition fields_to_fill :: "string list" where
  "fields_to_fill = [''Date'', ''POS Name'', ''Cashier Name'', ''Transaction No'']"

text \<open>Line 73: \<open>df[fields_to_fill] = df[fields_to_fill].ffill()\<close>.\<close>

definition ffill_fields :: "'n dataframe \<Rightarrow> exn + 'n dataframe" where
  "ffill_fields df =
     (case getitem_columns fields_to_fill df of
        Inl e \<Rightarrow> Inl e
      | Inr sub \<Rightarrow> Inr (setitem_columns (map (\<lambda>col. (fst col, ffill (snd col))) sub) df))"

text \<open>\<open>df.drop(columns=labels, errors='ignore')\<close>.\<close>

definition drop_columns :: "string list \<Rightarrow> 'n dataframe \<Rightarrow> 'n dataframe" where
  "drop_columns labels df = filter (\<lambda>col. fst col \<notin> set labels) df"

text \<open>\<open>df.insert(loc, label, values)\<close>: refuses a label that exists and a position past the end.\<close>

definition insert_column ::
  "nat \<Rightarrow> string \<Rightarrow> 'n cell list \<Rightarrow> 'n dataframe \<Rightarrow> exn + 'n dataframe" where
  "insert_column loc label vs df =
     (if label \<in> set (columns df) then Inl (ValueError (''cannot insert '' @ label @ '', already exists''))
      else if length df < loc then Inl (IndexError ''index out of bounds'')
      else Inr (take loc df @ [(label, vs)] @ drop loc df))"

text \<open>
  \<open>pd.to_datetime(series, errors='coerce')\<close>. How pandas reads a value as a date is a
  parameter: \<open>parse series v\<close> is the timestamp read from \<open>v\<close>, if any, given the whole series
  (pandas infers a format from it). A missing value and a value that does not parse give
  \<open>NaT\<close>. \<open>.dt.date\<close> keeps the day of a timestamp.
\<close>

definition to_datetime ::
  "('n cell list \<Rightarrow> 'n cell \<Rightarrow> int option) \<Rightarrow> 'n cell list \<Rightarrow> 'n cell list" where
  "to_datetime parse series =
     map (\<lambda>v. if isna v then NaT
               else (case parse series v of None \<Rightarrow> NaT | Some t \<Rightarrow> Timestamp t)) series"

definition dt_date :: "'n cell list \<Rightarrow> 'n cell list" where
  "dt_date series =
     map (\<lambda>v. case v of Timestamp t \<Rightarrow> DateV (t div 86400000000000) | _ \<Rightarrow> NaT) series"

text \<open>
  \<open>df.drop_duplicates(label)\<close>: \<open>duplicated\<close> marks the rows whose key was seen in a row
  above (missing values count as equal to each other), and the rows not marked are kept.
\<close>

fun duplicated :: "'a list \<Rightarrow> 'a list \<Rightarrow> bool list" where
  "duplicated seen [] = []"
| "duplicated seen (k # ks) = (k \<in> set seen) # duplicated (k # seen) ks"

fun select_rows :: "bool list \<Rightarrow> 'a list \<Rightarrow> 'a list" where
  "select_rows (m # ms) (x # xs) = (if m then x # select_rows ms xs else select_rows ms xs)"
| "select_rows _ _ = []"

definition drop_duplicates :: "string \<Rightarrow> 'n dataframe \<Rightarrow> exn + 'n dataframe" where
  "drop_duplicates label df =
     (case map_of df label of
        None \<Rightarrow> Inl (KeyError [label])
      | Some keys \<Rightarrow>
          Inr (map (\<lambda>col. (fst col, select_rows (map Not (duplicated [] keys)) (snd col))) df))"

definition dish_columns :: "string list" where
  "dish_columns =
     [''OR No'', ''DateTime'', ''Date'', ''POS Name'', ''Cashier Name'', ''Transaction No'',
      ''Dishes'', ''Dish Quantities'']"

text \<open>Lines 83-84: the dish names are cleaned when the column is there.\<close>

definition clean_dishes :: "'n dataframe \<Rightarrow> 'n dataframe" where
  "clean_dishes df =
     (case map_of df ''Dishes'' of
        None \<Rightarrow> df
      | Some ds \<Rightarrow> setitem ''Dishes'' (map (\<lambda>v. Str (clean_dish_name v)) ds) df)"

text \<open>
  \<open>process_report\<close> returns the report, the transactions and the dishes, or the exception
  that the first failing statement raises.
\<close>

definition process_report ::
  "('n cell list \<Rightarrow> 'n cell \<Rightarrow> int option) \<Rightarrow> 'n dataframe \<Rightarrow>
     exn + ('n dataframe \<times> 'n dataframe \<times> 'n dataframe)" where
  "process_report parse df =
     (case ffill_fields df of
        Inl e \<Rightarrow> Inl e
      | Inr df1 \<Rightarrow>
     let df2 = drop_columns [''No data found''] df1 in
     (case getitem ''Date'' df2 of
        Inl e \<Rightarrow> Inl e
      | Inr dates \<Rightarrow>
     (case insert_column 1 ''DateTime'' (to_datetime parse dates) df2 of
        Inl e \<Rightarrow> Inl e
      | Inr df3 \<Rightarrow>
     (case getitem ''Date'' df3 of
        Inl e \<Rightarrow> Inl e
      | Inr dates' \<Rightarrow>
     let df4 = setitem ''Date'' (dt_date (to_datetime parse dates')) df3;
         df5 = clean_dishes df4 in
     (case drop_duplicates ''OR No'' df5 of
        Inl e \<Rightarrow> Inl e
      | Inr dedup \<Rightarrow>
     let df_transactions = drop_columns [''Dishes'', ''Dish Quantities''] dedup in
     (case getitem_columns dish_columns df5 of
        Inl e \<Rightarrow> Inl e
      | Inr df_dishes \<Rightarrow> Inr (df5, df_transactions, df_dishes)))))))"

section \<open>The run: \<open>main\<close>\<close>

text \<open>
  The workbook holds the three sheets. Writing it can fail (the folder is an input of the
  run, and \<open>writable\<close> says whether the file can be written); a failure leaves \<open>main\<close>.
  The line printed after the write stands for the code's line, which ends with the path of
  the workbook; the path is not part of the model.
\<close>

record 'n workbook =
  DailyReport :: "'n dataframe"
  Transactions :: "'n dataframe"
  Dishes :: "'n dataframe"

definition export_to_excel ::
  "bool \<Rightarrow> 'n dataframe \<Rightarrow> 'n dataframe \<Rightarrow> 'n dataframe \<Rightarrow> exn + (string list \<times> 'n workbook)" where
  "export_to_excel writable report transactions dishes =
     (if writable
      then Inr ([''[INFO] Report saved''],
                \<lparr>DailyReport = report, Transactions = transactions, Dishes = dishes\<rparr>)
      else Inl (OtherError ''cannot write Daily_Report.xlsx''))"

text \<open>
  \<open>main\<close> after the arguments are read: \<open>folder_ok\<close> says that the folder exists and is a
  directory, \<open>files\<close> are its \<open>*.xls\<close> files. The result is the lines printed and the workbook
  written, if one was, or the exception that ends the run.
\<close>

definition main ::
  "('n cell list \<Rightarrow> 'n cell \<Rightarrow> int option) \<Rightarrow> bool \<Rightarrow> bool \<Rightarrow> 'n xls_file list \<Rightarrow>
     exn + (string list \<times> 'n workbook option)" where
  "main parse folder_ok writable files =
     (if \<not> folder_ok then Inr ([''[ERROR] Invalid folder path''], None)
      else
        (case merge_files files of
           Inl e \<Rightarrow> Inl e
         | Inr (out, df_raw) \<Rightarrow>
             if df_empty df_raw
             then Inr (out @ [''[WARNING] No valid .xls files found or all files failed to load.''], None)
             else
               (case process_report parse df_raw of
                  Inl e \<Rightarrow> Inl e
                | Inr (df_report, df_tx, df_dishes) \<Rightarrow>
                    (case export_to_excel writable df_report df_tx df_dishes of
                       Inl e \<Rightarrow> Inl e
                     | Inr (out', wb) \<Rightarrow> Inr (out @ out', Some wb)))))"

section \<open>Example inputs\<close>

text \<open>
  A small export used to run the functions: five line items of three receipts, with the
  header fields filled on the first row of each block only, and a date reader that knows
  the two dates of the example (as nanoseconds since the epoch) and nothing else.
\<close>

definition example_parse :: "int cell list \<Rightarrow> int cell \<Rightarrow> int option" where
  "example_parse series v =
     (if v = Str ''2024-01-01'' then Some 1704067200000000000
      else if v = Str ''2024-01-02'' then Some 1704153600000000000
      else None)"

definition example_df :: "int dataframe" where
  "example_df =
     [(''Date'', [Str ''2024-01-01'', NaN, NaN, Str ''2024-01-02'', NaN]),
      (''POS Name'', [Str ''POS1'', NaN, NaN, Str ''POS2'', NaN]),
      (''Cashier Name'', [Str ''Ana'', NaN, NaN, Str ''Ben'', NaN]),
      (''Transaction No'', [Num 7, NaN, NaN, Num 8, NaN]),
      (''OR No'', [Num 1, Num 1, Num 2, Num 2, Num 3]),
      (''Dishes'', [Str ''Burger W/ Cheese'', Str ''Fries (2)'', Str ''Rice'', NaN, Str ''Tea'']),
      (''Dish Quantities'', [Num 1, Num 2, Num 1, Num 1, Num 3]),
      (''No data found'', [NaN, NaN, NaN, NaN, NaN])]"

text \<open>What \<open>process_report\<close> makes of the example: the report, the transactions, the dishes.\<close>

definition example_report :: "int dataframe" where
  "example_report =
     [(''Date'', [DateV 19723, DateV 19723, DateV 19723, DateV 19724, DateV 19724]),
      (''DateTime'',
       [Timestamp 1704067200000000000, Timestamp 1704067200000000000,
        Timestamp 1704067200000000000, Timestamp 1704153600000000000,
        Timestamp 1704153600000000000]),
      (''POS Name'', [Str ''POS1'', Str ''POS1'', Str ''POS1'', Str ''POS2'', Str ''POS2'']),
      (''Cashier Name'', [Str ''Ana'', Str ''Ana'', Str ''Ana'', Str ''Ben'', Str ''Ben'']),
      (''Transaction No'', [Num 7, Num 7, Num 7, Num 8, Num 8]),
      (''OR No'', [Num 1, Num 1, Num 2, Num 2, Num 3]),
      (''Dishes'',
       [Str ''BURGER WITH CHEESE'', Str ''FRIES'', Str ''RICE'', Str [], Str ''TEA'']),
      (''Dish Quantities'', [Num 1, Num 2, Num 1, Num 1, Num 3])]"

definition example_transactions :: "int dataframe" where
  "example_transactions =
     [(''Date'', [DateV 19723, DateV 19723, DateV 19724]),
      (''DateTime'',
       [Timestamp 1704067200000000000, Timestamp 1704067200000000000,
        Timestamp 1704153600000000000]),
      (''POS Name'', [Str ''POS1'', Str ''POS1'', Str ''POS2'']),
      (''Cashier Name'', [Str ''Ana'', Str ''Ana'', Str ''Ben'']),
      (''Transaction No'', [Num 7, Num 7, Num 8]),
      (''OR No'', [Num 1, Num 2, Num 3])]"

definition example_dishes :: "int dataframe" where
  "example_dishes =
     [(''OR No'', [Num 1, Num 1, Num 2, Num 2, Num 3]),
      (''DateTime'',
       [Timestamp 1704067200000000000, Timestamp 1704067200000000000,
        Timestamp 1704067200000000000, Timestamp 1704153600000000000,
        Timestamp 1704153600000000000]),
      (''Date'', [DateV 19723, DateV 19723, DateV 19723, DateV 19724, DateV 19724]),
      (''POS Name'', [Str ''POS1'', Str ''POS1'', Str ''POS1'', Str ''POS2'', Str ''POS2'']),
      (''Cashier Name'', [Str ''Ana'', Str ''Ana'', Str ''Ana'', Str ''Ben'', Str ''Ben'']),
      (''Transaction No'', [Num 7, Num 7, Num 7, Num 8, Num 8]),
      (''Dishes'',
       [Str ''BURGER WITH CHEESE'', Str ''FRIES'', Str ''RICE'', Str [], Str ''TEA'']),
      (''Dish Quantities'', [Num 1, Num 2, Num 1, Num 1, Num 3])]"

text \<open>A two-row export whose date is not a date.\<close>

definition undated_df :: "int dataframe" where
  "undated_df =
     [(''Date'', [Str ''n/a'', NaN]),
      (''POS Name'', [Str ''POS1'', NaN]),
      (''Cashier Name'', [Str ''Ana'', NaN]),
      (''Transaction No'', [Num 7, NaN]),
      (''OR No'', [Num 1, Num 1]),
      (''Dishes'', [Str ''Rice'', Str ''Tea'']),
      (''Dish Quantities'', [Num 1, Num 2])]"

text \<open>
  A file that is text in neither encoding (a byte \<open>0xff\<close> is valid in neither GBK nor
  UTF-8), and a file that reads well.
\<close>

definition undecodable_file :: "int xls_file" where
  "undecodable_file =
     \<lparr>file_name = ''broken.xls'',
      read_gbk = DecodeFailure ''gbk codec cannot decode byte 0xff'',
      read_utf8 = DecodeFailure ''utf-8 codec cannot decode byte 0xff''\<rparr>"

definition valid_file :: "int xls_file" where
  "valid_file =
     \<lparr>file_name = ''day1.xls'', read_gbk = Parsed example_df, read_utf8 = Parsed example_df\<rparr>"

section \<open>Properties of the text normalizer\<close>

subsection \<open>Replacement, splitting and joining\<close>

lemma replace_single: "replace [ch] [] t = filter (\<lambda>c. c \<noteq> ch) t"
  by (induction t) auto

lemma set_replace_subset: "set (replace k v t) \<subseteq> set v \<union> set t"
proof (induction k v t rule: replace.induct)
  case (1 old new)
  then show ?case by (auto split: if_splits)
next
  case (2 old new c cs)
  have "set (drop (length old - 1) cs) \<subseteq> set cs" by (rule set_drop_subset)
  with 2 show ?case by (auto split: if_splits)
qed

lemma replace_absent: "k \<noteq> [] \<Longrightarrow> \<not> occurs k t \<Longrightarrow> replace k v t = t"
  by (induction t) auto

lemma set_fold_replace:
  "set (fold (\<lambda>(key, val) t. replace (f key) (f val) t) rs t)
     \<subseteq> set t \<union> \<Union>(set ` f ` snd ` set rs)"
proof (induction rs arbitrary: t)
  case Nil
  then show ?case by simp
next
  case (Cons r rs)
  obtain k v where r: "r = (k, v)" by (cases r)
  have "set (fold (\<lambda>(key, val) t. replace (f key) (f val) t) rs (replace (f k) (f v) t))
          \<subseteq> set (replace (f k) (f v) t) \<union> \<Union>(set ` f ` snd ` set rs)" by (rule Cons.IH)
  moreover have "set (replace (f k) (f v) t) \<subseteq> set (f v) \<union> set t" by (rule set_replace_subset)
  ultimately show ?case using r by auto
qed

lemma set_join_subset: "set (join sep ws) \<subseteq> set sep \<union> \<Union>(set ` set ws)"
  by (induction sep ws rule: join.induct) auto

lemma set_split_from: "x \<in> set (split_from db w u) \<Longrightarrow> set x \<subseteq> set w \<union> set u"
proof (induction u arbitrary: w)
  case Nil
  then show ?case by (simp split: if_splits)
next
  case (Cons c u)
  show ?case
  proof (cases "db_isspace db c")
    case True
    then have "x = w \<or> x \<in> set (split_from db [] u)"
      using Cons.prems by (simp split: if_splits)
    then show ?thesis using Cons.IH [of "[]"] by auto
  next
    case False
    then have "x \<in> set (split_from db (w @ [c]) u)" using Cons.prems by simp
    then show ?thesis using Cons.IH [of "w @ [c]"] by auto
  qed
qed

lemma split_from_words:
  "\<forall>c\<in>set w. \<not> db_isspace db c \<Longrightarrow> x \<in> set (split_from db w u) \<Longrightarrow>
   x \<noteq> [] \<and> (\<forall>c\<in>set x. \<not> db_isspace db c)"
proof (induction u arbitrary: w)
  case Nil
  then show ?case by (simp split: if_splits)
next
  case (Cons c u)
  show ?case
  proof (cases "db_isspace db c")
    case True
    then have "(w \<noteq> [] \<and> x = w) \<or> x \<in> set (split_from db [] u)"
      using Cons.prems(2) by (simp split: if_splits)
    then show ?thesis using Cons.prems(1) Cons.IH [of "[]"] by auto
  next
    case False
    then have "x \<in> set (split_from db (w @ [c]) u)" using Cons.prems(2) by simp
    moreover have "\<forall>d\<in>set (w @ [c]). \<not> db_isspace db d" using False Cons.prems(1) by simp
    ultimately show ?thesis using Cons.IH [of "w @ [c]"] by blast
  qed
qed

lemma split_from_append:
  "\<forall>c\<in>set x. \<not> db_isspace db c \<Longrightarrow> split_from db w (x @ u) = split_from db (w @ x) u"
proof (induction x arbitrary: w)
  case Nil
  then show ?case by simp
next
  case (Cons c x)
  then have "split_from db (w @ [c]) (x @ u) = split_from db ((w @ [c]) @ x) u" by simp
  then show ?case using Cons.prems by simp
qed

lemma split_join:
  assumes sp: "db_isspace db 32"
  shows "\<forall>x\<in>set ws. x \<noteq> [] \<and> (\<forall>c\<in>set x. \<not> db_isspace db c) \<Longrightarrow>
         split_from db [] (join [32] ws) = ws"
proof (induction ws)
  case Nil
  then show ?case by simp
next
  case (Cons w ws)
  note w = Cons.prems
  show ?case
  proof (cases ws)
    case Nil
    have "split_from db [] (w @ []) = split_from db ([] @ w) []"
      using w by (intro split_from_append) simp
    then show ?thesis using Nil w by simp
  next
    case (Cons v vs)
    have "split_from db [] (w @ (32 # join [32] (v # vs)))
            = split_from db ([] @ w) (32 # join [32] (v # vs))"
      using w by (intro split_from_append) simp
    also have "\<dots> = w # split_from db [] (join [32] (v # vs))"
      using w sp by simp
    also have "\<dots> = w # v # vs" using Cons.IH w Cons by simp
    finally show ?thesis using Cons by simp
  qed
qed

lemma concat_map_single: "\<forall>x\<in>set xs. f x = [x] \<Longrightarrow> concat (map f xs) = xs"
  by (induction xs) simp_all

lemma ascii_space: "ascii '' '' = [32]"
  by (simp add: ascii_def)

lemma remove_specials:
  "fold (\<lambda>ch t. replace (ascii ch) [] t) [''('', '')'', ''.'', ''@''] text
     = filter (\<lambda>c. c \<notin> {40, 41, 46, 64}) text"
  by (simp add: ascii_def replace_single)

subsection \<open>The normalizer on its own output\<close>

lemma clean_dish_name_str_plain:
  assumes facts: "unicode_facts db" and c: "c \<in> set (clean_dish_name_str db s)"
  shows "plain db c"
proof -
  define t1 where "t1 = fold (\<lambda>ch t. replace (ascii ch) [] t) [''('', '')'', ''.'', ''@''] s"
  define t2 where "t2 = fold (\<lambda>(key, val) t. replace (ascii key) (ascii val) t) replacements t1"
  define t3 where "t3 = filter (\<lambda>c. \<not> db_isdigit db c) t2"
  have c': "c \<in> set (join [32] (split_from db [] (upper db t3)))"
    using c unfolding clean_dish_name_str_def Let_def split_def ascii_space
      t1_def [symmetric] t2_def [symmetric] t3_def [symmetric] .
  have u1: "db_upper db d = [d]" if "d \<in> set (db_upper db e)" for d e
    using facts that unfolding unicode_facts_def by blast
  have u2: "\<not> db_isdigit db d" if "\<not> db_isdigit db e" and "d \<in> set (db_upper db e)" for d e
    using facts that unfolding unicode_facts_def by blast
  have u3: "d \<notin> {40, 41, 46, 64}" if "e \<notin> {40, 41, 46, 64}" and "d \<in> set (db_upper db e)" for d e
    using facts that unfolding unicode_facts_def by blast
  have sp: "plain db 32"
    using facts unfolding unicode_facts_def plain_def by simp
  have t1: "\<forall>d\<in>set t1. d \<notin> {40, 41, 46, 64}"
    unfolding t1_def remove_specials by simp
  have "set t2 \<subseteq> set t1 \<union> \<Union>(set ` ascii ` snd ` set replacements)"
    unfolding t2_def by (rule set_fold_replace)
  moreover have "\<forall>v\<in>ascii ` snd ` set replacements. \<forall>d\<in>set v. d \<notin> {40, 41, 46, 64}"
    by (simp add: replacements_def ascii_def)
  ultimately have t2: "\<forall>d\<in>set t2. d \<notin> {40, 41, 46, 64}"
    using t1 by blast
  have t3: "\<forall>d\<in>set t3. d \<notin> {40, 41, 46, 64} \<and> \<not> db_isdigit db d"
    using t2 by (simp add: t3_def)
  have up: "plain db d" if "d \<in> set (upper db t3)" for d
  proof -
    from that obtain e where e: "e \<in> set t3" and d: "d \<in> set (db_upper db e)"
      unfolding upper_def by auto
    from t3 e have "e \<notin> {40, 41, 46, 64}" and "\<not> db_isdigit db e" by blast+
    then show ?thesis unfolding plain_def using u1 [OF d] u2 [OF _ d] u3 [OF _ d] by blast
  qed
  from c' set_join_subset [of "[32]" "split_from db [] (upper db t3)"]
  have "c = 32 \<or> (\<exists>w\<in>set (split_from db [] (upper db t3)). c \<in> set w)"
    by auto
  then show "plain db c"
  proof
    assume "c = 32"
    then show ?thesis by (simp add: sp)
  next
    assume "\<exists>w\<in>set (split_from db [] (upper db t3)). c \<in> set w"
    then obtain w where "w \<in> set (split_from db [] (upper db t3))" and "c \<in> set w" by blast
    then have "c \<in> set (upper db t3)" using set_split_from [of w db "[]" "upper db t3"] by auto
    then show ?thesis by (rule up)
  qed
qed

lemma clean_dish_name_str_words:
  "\<exists>ws. clean_dish_name_str db s = join [32] ws \<and>
        (\<forall>x\<in>set ws. x \<noteq> [] \<and> (\<forall>c\<in>set x. \<not> db_isspace db c))"
proof -
  define u where "u = upper db (filter (\<lambda>c. \<not> db_isdigit db c)
      (fold (\<lambda>(key, val) t. replace (ascii key) (ascii val) t) replacements
        (fold (\<lambda>ch t. replace (ascii ch) [] t) [''('', '')'', ''.'', ''@''] s)))"
  have "clean_dish_name_str db s = join [32] (split_from db [] u)"
    unfolding clean_dish_name_str_def Let_def split_def ascii_space u_def ..
  moreover have "\<forall>x\<in>set (split_from db [] u). x \<noteq> [] \<and> (\<forall>c\<in>set x. \<not> db_isspace db c)"
    using split_from_words [of "[]" db _ u] by simp
  ultimately show ?thesis by blast
qed

lemma clean_dish_name_str_fixed:
  assumes facts: "unicode_facts db"
    and keys: "\<forall>k\<in>set (map fst replacements). \<not> occurs (ascii k) (clean_dish_name_str db s)"
  shows "clean_dish_name_str db (clean_dish_name_str db s) = clean_dish_name_str db s"
proof -
  define t where "t = clean_dish_name_str db s"
  have pl: "\<forall>c\<in>set t. plain db c"
    using clean_dish_name_str_plain [OF facts] by (simp add: t_def)
  obtain ws where ws: "t = join [32] ws"
    "\<forall>x\<in>set ws. x \<noteq> [] \<and> (\<forall>c\<in>set x. \<not> db_isspace db c)"
    using clean_dish_name_str_words [of db s] t_def by blast
  have sp: "db_isspace db 32" using facts by (simp add: unicode_facts_def)
  have s1: "fold (\<lambda>ch t. replace (ascii ch) [] t) [''('', '')'', ''.'', ''@''] t = t"
    unfolding remove_specials using pl by (simp add: plain_def)
  have s2: "fold (\<lambda>(key, val) t. replace (ascii key) (ascii val) t) replacements t = t"
    using keys unfolding t_def [symmetric]
    by (simp add: replacements_def replace_absent ascii_def)
  have s3: "filter (\<lambda>c. \<not> db_isdigit db c) t = t"
    using pl by (simp add: plain_def)
  have s4: "upper db t = t"
    unfolding upper_def using pl by (intro concat_map_single) (simp add: plain_def)
  have s5: "join (ascii '' '') (split db t) = t"
    unfolding split_def ascii_space using ws split_join [OF sp, of ws] by simp
  have "clean_dish_name_str db t = t"
    unfolding clean_dish_name_str_def Let_def s1 s2 s3 s4 by (rule s5)
  then show ?thesis by (simp add: t_def)
qed

lemma unicode_facts_ascii_db: "unicode_facts ascii_db"
  unfolding unicode_facts_def ascii_db_def by (simp, intro conjI allI impI) arith+

subsection \<open>Claims about \<open>clean_dish_name\<close>\<close>

text \<open>
  Claim C1, as the code has it. The normalizer is not idempotent on every string: the
  replacements look for upper-case keys before the text is put in upper case, and a key can
  appear only once digits, symbols or \<open>PCS\<close> are gone, so a first pass can produce a key
  that a second pass rewrites. What holds: for every string whose normalized form contains
  none of the five keys of \<open>replacements\<close>, normalizing the normalized form changes
  nothing. The strings are all Python strings; the Unicode database is a parameter with the
  facts \<open>unicode_facts\<close>.
\<close>

theorem clean_dish_name_idempotent_without_keys:
  assumes "unicode_facts db"
    and "\<forall>k\<in>set (map fst replacements). \<not> occurs (ascii k) (clean_dish_name_str db s)"
  shows "clean_dish_name_str db (clean_dish_name_str db s) = clean_dish_name_str db s"
  using assms by (rule clean_dish_name_str_fixed)

theorem clean_dish_name_idempotent_without_keys_witness:
  "unicode_facts ascii_db \<and>
   list_all (\<lambda>k. \<not> occurs (ascii k) (clean_dish_name_str ascii_db (ascii ''Fried Rice (2)'')))
     (map fst replacements) \<and>
   clean_dish_name_str ascii_db (clean_dish_name_str ascii_db (ascii ''Fried Rice (2)''))
     = ascii ''FRIED RICE''"
proof -
  have v: "clean_dish_name_str ascii_db (ascii ''Fried Rice (2)'') = ascii ''FRIED RICE''"
    by code_simp
  have h2: "\<forall>k\<in>set (map fst replacements).
      \<not> occurs (ascii k) (clean_dish_name_str ascii_db (ascii ''Fried Rice (2)''))"
    unfolding v by (simp add: replacements_def ascii_def)
  have "clean_dish_name_str ascii_db (clean_dish_name_str ascii_db (ascii ''Fried Rice (2)''))
      = clean_dish_name_str ascii_db (ascii ''Fried Rice (2)'')"
    using clean_dish_name_idempotent_without_keys [OF unicode_facts_ascii_db h2] .
  then show ?thesis using unicode_facts_ascii_db h2 v by (simp add: list_all_iff)
qed

text \<open>
  Claim C1 as stated fails: \<open>w/\<close> becomes \<open>W/\<close>, which becomes \<open>WITH\<close>.
\<close>

theorem clean_dish_name_not_idempotent:
  "clean_dish_name (Str (clean_dish_name (Str ''w/'' :: int cell)) :: int cell)
     \<noteq> clean_dish_name (Str ''w/'' :: int cell)"
  by code_simp

text \<open>
  Claim C2, as the code has it: for the input \<open>Burger W/ Cheese & Fries (2) PCS 3\<close> the
  normalizer returns \<open>BURGER WITH CHEESE AND FRIES\<close>.
\<close>

theorem clean_dish_name_burger:
  "clean_dish_name (Str ''Burger W/ Cheese & Fries (2) PCS 3'') = ''BURGER WITH CHEESE AND FRIES''"
  by code_simp

text \<open>
  Claim C2 as stated fails: the result is not \<open>BURGER WITH CHEESE AND FRIES FRIES\<close>.
\<close>

theorem clean_dish_name_burger_not_fries_twice:
  "clean_dish_name (Str ''Burger W/ Cheese & Fries (2) PCS 3'' :: int cell)
     \<noteq> ''BURGER WITH CHEESE AND FRIES FRIES''"
  by code_simp

text \<open>
  Claim C4: for every input that is not a string, \<open>clean_dish_name\<close> returns the empty
  string. The function is total, so it returns on every input.
\<close>

theorem clean_dish_name_non_string:
  "(\<forall>s. v \<noteq> Str s) \<Longrightarrow> clean_dish_name v = []"
  by (cases v) simp_all

theorem clean_dish_name_non_string_witness:
  "clean_dish_name (NaN :: int cell) = [] \<and> clean_dish_name (Num 3 :: int cell) = []"
proof -
  have a: "\<forall>s. (NaN :: int cell) \<noteq> Str s" by simp
  have b: "\<forall>s. (Num 3 :: int cell) \<noteq> Str s" by simp
  show ?thesis
    using clean_dish_name_non_string [OF a] clean_dish_name_non_string [OF b] by (rule conjI)
qed

section \<open>Properties of the reconciliation engine\<close>

subsection \<open>Forward fill and deduplication on lists\<close>

lemma length_ffill_from: "length (ffill_from prev xs) = length xs"
  by (induction xs arbitrary: prev) simp_all

lemma ffill_from_nth:
  "i < length xs \<Longrightarrow>
   ffill_from prev xs ! i =
     (case filter (\<lambda>v. \<not> isna v) (take (Suc i) xs) of
        [] \<Rightarrow> (case prev of None \<Rightarrow> xs ! i | Some v \<Rightarrow> v)
      | v # vs \<Rightarrow> last (v # vs))"
proof (induction xs arbitrary: prev i)
  case Nil
  then show ?case by simp
next
  case (Cons x xs)
  show ?case
  proof (cases i)
    case 0
    then show ?thesis by (auto split: option.splits)
  next
    case (Suc j)
    then have j: "j < length xs" using Cons.prems by simp
    show ?thesis
    proof (cases "isna x")
      case True
      then show ?thesis unfolding Suc using Cons.IH [OF j, of prev]
        by (simp split: list.splits option.splits)
    next
      case False
      then show ?thesis unfolding Suc using Cons.IH [OF j, of "Some x"]
        by (simp split: list.splits option.splits)
    qed
  qed
qed

lemma first_seen_cong: "set seen = set seen' \<Longrightarrow> first_seen seen xs = first_seen seen' xs"
proof (induction xs arbitrary: seen seen')
  case Nil
  then show ?case by simp
next
  case (Cons x xs)
  have "first_seen (x # seen) xs = first_seen (x # seen') xs"
    using Cons.prems by (intro Cons.IH) simp
  moreover have "first_seen seen xs = first_seen seen' xs"
    using Cons.prems by (rule Cons.IH)
  ultimately show ?case using Cons.prems by simp
qed

lemma select_rows_first_seen:
  "select_rows (map Not (duplicated seen ks)) ks = first_seen seen ks"
proof (induction ks arbitrary: seen)
  case Nil
  then show ?case by simp
next
  case (Cons k ks)
  have "k \<in> set seen \<Longrightarrow> first_seen (k # seen) ks = first_seen seen ks"
    by (rule first_seen_cong) auto
  then show ?case using Cons.IH [of "k # seen"] by simp
qed

lemma set_first_seen: "set (first_seen seen xs) = set xs - set seen"
  by (induction xs arbitrary: seen) auto

lemma distinct_first_seen: "distinct (first_seen seen xs)"
  by (induction xs arbitrary: seen) (simp_all add: set_first_seen)

lemma length_duplicated: "length (duplicated seen ks) = length ks"
  by (induction ks arbitrary: seen) simp_all

lemma duplicated_nth:
  "i < length ks \<Longrightarrow> duplicated seen ks ! i = (ks ! i \<in> set seen \<union> set (take i ks))"
proof (induction ks arbitrary: seen i)
  case Nil
  then show ?case by simp
next
  case (Cons k ks)
  then show ?case by (cases i) auto
qed

lemma length_select_rows:
  "length xs = length ms \<Longrightarrow> length (select_rows ms xs) = length (filter id ms)"
  by (induction ms xs rule: select_rows.induct) simp_all

lemma select_rows_nth:
  "length xs = length ms \<Longrightarrow>
   select_rows ms xs = map (\<lambda>i. xs ! i) (filter (\<lambda>i. ms ! i) [0..<length ms])"
proof (induction ms arbitrary: xs)
  case Nil
  then show ?case by simp
next
  case (Cons m ms)
  then obtain y ys where xs: "xs = y # ys" and len: "length ys = length ms"
    by (cases xs) simp_all
  have upt: "[0..<length (m # ms)] = 0 # map Suc [0..<length ms]"
    by (simp add: upt_conv_Cons map_Suc_upt del: upt_Suc)
  have shift: "map (\<lambda>i. (y # ys) ! i) (filter (\<lambda>i. (b # ms) ! i) (map Suc [0..<length ms]))
      = map (\<lambda>i. ys ! i) (filter (\<lambda>i. ms ! i) [0..<length ms])" for b
    by (simp add: filter_map comp_def)
  show ?case unfolding xs upt using Cons.IH [OF len] by (simp add: shift)
qed

lemma in_columns_iff: "l \<in> set (columns df) \<longleftrightarrow> map_of df l \<noteq> None"
  by (simp add: columns_def map_of_eq_None_iff)

lemma all_len_map_of: "all_len n df \<Longrightarrow> map_of df l = Some xs \<Longrightarrow> length xs = n"
  using map_of_SomeD [of df l xs] by (fastforce simp: all_len_def)

lemma wf_df_all_len: "wf_df df \<Longrightarrow> all_len (nrows df) df"
  by (simp add: wf_df_def all_len_def list_all_iff)

lemma all_len_nrows: "all_len n df \<Longrightarrow> df \<noteq> [] \<Longrightarrow> nrows df = n"
  by (cases df) (simp_all add: all_len_def nrows_def)

lemma map_of_relabel:
  "map_of (map (\<lambda>col. (fst col, h (fst col) (snd col))) df) l = map_option (h l) (map_of df l)"
  by (induction df) auto

paragraph \<open>Facts about \<open>setitem_columns\<close>\<close>

lemma setitem_columns_relabel:
  "setitem_columns sub df =
     map (\<lambda>col. (fst col, (case map_of sub (fst col) of Some vs \<Rightarrow> vs | None \<Rightarrow> snd col))) df"
  unfolding setitem_columns_def by (rule map_cong) (auto split: option.splits)

lemma map_of_setitem_columns:
  "map_of (setitem_columns sub df) l =
     map_option (\<lambda>xs. case map_of sub l of Some vs \<Rightarrow> vs | None \<Rightarrow> xs) (map_of df l)"
  unfolding setitem_columns_relabel
  by (rule map_of_relabel [where h = "\<lambda>l xs. case map_of sub l of Some vs \<Rightarrow> vs | None \<Rightarrow> xs"])

lemma columns_setitem_columns: "columns (setitem_columns sub df) = columns df"
  by (simp add: setitem_columns_relabel columns_def comp_def)

lemma all_len_setitem_columns:
  "all_len n df \<Longrightarrow> all_len n sub \<Longrightarrow> all_len n (setitem_columns sub df)"
proof -
  assume df: "all_len n df" and sub: "all_len n sub"
  show ?thesis unfolding all_len_def
  proof
    fix c assume "c \<in> set (setitem_columns sub df)"
    then obtain col where col: "col \<in> set df"
      and c: "c = (case map_of sub (fst col) of Some vs \<Rightarrow> (fst col, vs) | None \<Rightarrow> col)"
      unfolding setitem_columns_def by auto
    show "length (snd c) = n"
    proof (cases "map_of sub (fst col)")
      case None
      then show ?thesis using c col df by (simp add: all_len_def)
    next
      case (Some vs)
      then show ?thesis using c all_len_map_of [OF sub Some] by simp
    qed
  qed
qed

paragraph \<open>Facts about \<open>getitem_columns\<close>\<close>

lemma getitem_columns_Inr:
  "getitem_columns labels df = Inr sub \<longleftrightarrow>
     set labels \<subseteq> set (columns df) \<and> sub = map (\<lambda>l. (l, the (map_of df l))) labels"
  by (auto simp: getitem_columns_def Let_def filter_empty_conv)

lemma getitem_columns_Inl:
  "\<not> set labels \<subseteq> set (columns df) \<Longrightarrow>
   getitem_columns labels df = Inl (KeyError (filter (\<lambda>l. l \<notin> set (columns df)) labels))"
  by (auto simp: getitem_columns_def Let_def filter_empty_conv)

lemma all_len_getitem_columns:
  "all_len n df \<Longrightarrow> getitem_columns labels df = Inr sub \<Longrightarrow> all_len n sub"
proof -
  assume df: "all_len n df" and "getitem_columns labels df = Inr sub"
  then have ls: "set labels \<subseteq> set (columns df)"
    and sub: "sub = map (\<lambda>l. (l, the (map_of df l))) labels"
    by (simp_all add: getitem_columns_Inr)
  show ?thesis unfolding all_len_def
  proof
    fix c assume "c \<in> set sub"
    then obtain l where l: "l \<in> set labels" and c: "c = (l, the (map_of df l))"
      unfolding sub by auto
    from l ls have "l \<in> set (columns df)" by blast
    then obtain xs where xs: "map_of df l = Some xs" by (auto simp: in_columns_iff)
    then show "length (snd c) = n" using all_len_map_of [OF df xs] c by simp
  qed
qed

paragraph \<open>Facts about \<open>ffill_fields\<close>\<close>

lemma length_ffill: "length (ffill xs) = length xs"
  by (simp add: ffill_def length_ffill_from)

lemma ffill_fields_Inl:
  "\<not> set fields_to_fill \<subseteq> set (columns df) \<Longrightarrow>
   ffill_fields df = Inl (KeyError (filter (\<lambda>l. l \<notin> set (columns df)) fields_to_fill))"
  by (simp add: ffill_fields_def getitem_columns_Inl)

lemma ffill_fields_Inr:
  "ffill_fields df = Inr df1 \<Longrightarrow>
     set fields_to_fill \<subseteq> set (columns df) \<and>
     df1 = setitem_columns (map (\<lambda>l. (l, ffill (the (map_of df l)))) fields_to_fill) df"
  by (auto simp: ffill_fields_def getitem_columns_Inr comp_def split: sum.splits)

lemma map_of_filled:
  "map_of (map (\<lambda>l. (l, g l)) labels) l = (if l \<in> set labels then Some (g l) else None)"
  by (induction labels) auto

lemma map_of_ffill_fields:
  assumes "ffill_fields df = Inr df1"
  shows "map_of df1 l =
     (if l \<in> set fields_to_fill then map_option ffill (map_of df l) else map_of df l)"
proof -
  from ffill_fields_Inr [OF assms]
  have df1: "df1 = setitem_columns (map (\<lambda>l. (l, ffill (the (map_of df l)))) fields_to_fill) df"
    by simp
  show ?thesis unfolding df1 map_of_setitem_columns map_of_filled
    by (cases "map_of df l") simp_all
qed

lemma columns_ffill_fields: "ffill_fields df = Inr df1 \<Longrightarrow> columns df1 = columns df"
  by (auto dest!: ffill_fields_Inr simp: columns_setitem_columns)

lemma all_len_ffill_fields:
  assumes "all_len n df" and "ffill_fields df = Inr df1"
  shows "all_len n df1"
proof -
  from ffill_fields_Inr [OF assms(2)]
  have sub: "set fields_to_fill \<subseteq> set (columns df)"
    and df1: "df1 = setitem_columns (map (\<lambda>l. (l, ffill (the (map_of df l)))) fields_to_fill) df"
    by simp_all
  have "all_len n (map (\<lambda>l. (l, ffill (the (map_of df l)))) fields_to_fill)"
    unfolding all_len_def
  proof
    fix col assume "col \<in> set (map (\<lambda>l. (l, ffill (the (map_of df l)))) fields_to_fill)"
    then obtain l where l: "l \<in> set fields_to_fill" and col: "col = (l, ffill (the (map_of df l)))"
      by auto
    from l sub have "l \<in> set (columns df)" by blast
    then obtain xs where "map_of df l = Some xs" by (auto simp: in_columns_iff)
    then show "length (snd col) = n"
      using all_len_map_of [OF assms(1)] col by (simp add: length_ffill)
  qed
  then show ?thesis unfolding df1 using assms(1) by (rule all_len_setitem_columns [rotated])
qed

paragraph \<open>Facts about \<open>drop_columns\<close>\<close>

lemma map_of_drop_columns:
  "map_of (drop_columns labels df) l = (if l \<in> set labels then None else map_of df l)"
  unfolding drop_columns_def by (induction df) auto

lemma columns_drop_columns:
  "columns (drop_columns labels df) = filter (\<lambda>l. l \<notin> set labels) (columns df)"
  by (simp add: drop_columns_def columns_def filter_map comp_def)

lemma all_len_drop_columns: "all_len n df \<Longrightarrow> all_len n (drop_columns labels df)"
  by (simp add: all_len_def drop_columns_def)

lemma drop_columns_absent:
  "set labels \<inter> set (columns df) = {} \<Longrightarrow> drop_columns labels df = df"
proof -
  assume "set labels \<inter> set (columns df) = {}"
  then have "\<forall>col\<in>set df. fst col \<notin> set labels" unfolding columns_def by auto
  then show ?thesis unfolding drop_columns_def by (rule filter_True)
qed

paragraph \<open>Facts about \<open>getitem\<close>\<close>

lemma getitem_Inr: "getitem l df = Inr xs \<longleftrightarrow> map_of df l = Some xs"
  by (simp add: getitem_def split: option.splits)

paragraph \<open>Facts about \<open>insert_column\<close>\<close>

lemma insert_column_Inr:
  "insert_column loc l vs df = Inr df' \<longleftrightarrow>
     l \<notin> set (columns df) \<and> loc \<le> length df \<and> df' = take loc df @ (l, vs) # drop loc df"
  by (auto simp: insert_column_def)

lemma map_of_insert:
  assumes "l \<notin> set (columns df)"
  shows "map_of (take loc df @ (l, vs) # drop loc df) k = (if k = l then Some vs else map_of df k)"
proof -
  have gen: "l \<notin> fst ` set xs \<Longrightarrow>
      map_of (xs @ (l, vs) # ys) k = (if k = l then Some vs else map_of (xs @ ys) k)" for xs ys
    by (induction xs) auto
  have "set (take loc df) \<subseteq> set df" by (rule set_take_subset)
  then have "l \<notin> fst ` set (take loc df)" using assms unfolding columns_def by auto
  from gen [OF this, of "drop loc df"] show ?thesis by simp
qed

lemma columns_insert:
  "columns (take loc df @ (l, vs) # drop loc df) = take loc (columns df) @ l # drop loc (columns df)"
  by (simp add: columns_def take_map drop_map)

lemma all_len_insert:
  "all_len n df \<Longrightarrow> length vs = n \<Longrightarrow> all_len n (take loc df @ (l, vs) # drop loc df)"
  unfolding all_len_def by (auto dest: in_set_takeD in_set_dropD)

paragraph \<open>Facts about \<open>setitem\<close>\<close>

lemma setitem_present:
  "l \<in> set (columns df) \<Longrightarrow>
   setitem l vs df = map (\<lambda>col. (fst col, if fst col = l then vs else snd col)) df"
proof -
  assume l: "l \<in> set (columns df)"
  have "(\<lambda>col. if fst col = l then (l, vs) else col)
      = (\<lambda>col :: string \<times> 'a cell list. (fst col, if fst col = l then vs else snd col))"
    by (rule ext) (simp add: prod_eq_iff)
  then show ?thesis using l by (simp add: setitem_def)
qed

lemma map_of_setitem:
  "l \<in> set (columns df) \<Longrightarrow> map_of (setitem l vs df) k = (if k = l then Some vs else map_of df k)"
proof -
  assume l: "l \<in> set (columns df)"
  then obtain xs where xs: "map_of df l = Some xs" by (auto simp: in_columns_iff)
  have "map_of (setitem l vs df) k = map_option (\<lambda>xs. if k = l then vs else xs) (map_of df k)"
    unfolding setitem_present [OF l]
    by (rule map_of_relabel [where h = "\<lambda>k xs. if k = l then vs else xs"])
  then show ?thesis using xs by (cases "map_of df k") auto
qed

lemma columns_setitem: "l \<in> set (columns df) \<Longrightarrow> columns (setitem l vs df) = columns df"
  by (simp add: setitem_present columns_def comp_def)

lemma all_len_setitem:
  "all_len n df \<Longrightarrow> length vs = n \<Longrightarrow> l \<in> set (columns df) \<Longrightarrow> all_len n (setitem l vs df)"
  by (simp add: setitem_present all_len_def)

paragraph \<open>Facts about \<open>clean_dishes\<close>\<close>

lemma map_of_clean_dishes:
  "map_of (clean_dishes df) k =
     (if k = ''Dishes'' then map_option (map (\<lambda>v. Str (clean_dish_name v))) (map_of df k)
      else map_of df k)"
proof (cases "map_of df ''Dishes''")
  case None
  then show ?thesis by (simp add: clean_dishes_def)
next
  case (Some ds)
  then have "''Dishes'' \<in> set (columns df)" by (simp add: in_columns_iff)
  then show ?thesis using Some by (simp add: clean_dishes_def map_of_setitem)
qed

lemma columns_clean_dishes: "columns (clean_dishes df) = columns df"
proof (cases "map_of df ''Dishes''")
  case None
  then show ?thesis by (simp add: clean_dishes_def)
next
  case (Some ds)
  then have "''Dishes'' \<in> set (columns df)" by (simp add: in_columns_iff)
  then show ?thesis using Some by (simp add: clean_dishes_def columns_setitem)
qed

lemma all_len_clean_dishes: "all_len n df \<Longrightarrow> all_len n (clean_dishes df)"
proof (cases "map_of df ''Dishes''")
  case None
  then show "all_len n df \<Longrightarrow> ?thesis" by (simp add: clean_dishes_def)
next
  case (Some ds)
  assume n: "all_len n df"
  have "''Dishes'' \<in> set (columns df)" using Some by (simp add: in_columns_iff)
  moreover have "length (map (\<lambda>v. Str (clean_dish_name v)) ds) = n"
    using all_len_map_of [OF n Some] by simp
  ultimately show ?thesis using Some n by (simp add: clean_dishes_def all_len_setitem)
qed

lemma clean_dishes_absent: "''Dishes'' \<notin> set (columns df) \<Longrightarrow> clean_dishes df = df"
  by (simp add: clean_dishes_def in_columns_iff)

paragraph \<open>Facts about \<open>drop_duplicates\<close>\<close>

lemma drop_duplicates_Inr:
  "drop_duplicates l df = Inr dd \<longleftrightarrow>
     (\<exists>keys. map_of df l = Some keys \<and>
        dd = map (\<lambda>col. (fst col, select_rows (map Not (duplicated [] keys)) (snd col))) df)"
  by (auto simp: drop_duplicates_def split: option.splits)

lemma drop_duplicates_Inl:
  "l \<notin> set (columns df) \<Longrightarrow> drop_duplicates l df = Inl (KeyError [l])"
  by (simp add: drop_duplicates_def in_columns_iff)

lemma process_report_InrD:
  assumes pr: "process_report parse df = Inr (rep, tx, items)"
  shows "\<exists>df1 df2 dates df3 keys.
     ffill_fields df = Inr df1 \<and> df2 = drop_columns [''No data found''] df1 \<and>
     map_of df2 ''Date'' = Some dates \<and> ''DateTime'' \<notin> set (columns df2) \<and> df2 \<noteq> [] \<and>
     df3 = take 1 df2 @ (''DateTime'', to_datetime parse dates) # drop 1 df2 \<and>
     rep = clean_dishes (setitem ''Date'' (dt_date (to_datetime parse dates)) df3) \<and>
     map_of rep ''OR No'' = Some keys \<and>
     tx = drop_columns [''Dishes'', ''Dish Quantities'']
            (map (\<lambda>col. (fst col, select_rows (map Not (duplicated [] keys)) (snd col))) rep) \<and>
     set dish_columns \<subseteq> set (columns rep) \<and>
     items = map (\<lambda>l. (l, the (map_of rep l))) dish_columns"
proof -
  from pr have "\<exists>df1 dates df3 dates' dd.
      ffill_fields df = Inr df1 \<and>
      getitem ''Date'' (drop_columns [''No data found''] df1) = Inr dates \<and>
      insert_column 1 ''DateTime'' (to_datetime parse dates) (drop_columns [''No data found''] df1)
        = Inr df3 \<and>
      getitem ''Date'' df3 = Inr dates' \<and>
      drop_duplicates ''OR No'' (clean_dishes (setitem ''Date'' (dt_date (to_datetime parse dates')) df3))
        = Inr dd \<and>
      getitem_columns dish_columns
        (clean_dishes (setitem ''Date'' (dt_date (to_datetime parse dates')) df3)) = Inr items \<and>
      rep = clean_dishes (setitem ''Date'' (dt_date (to_datetime parse dates')) df3) \<and>
      tx = drop_columns [''Dishes'', ''Dish Quantities''] dd"
    unfolding process_report_def Let_def by (simp split: sum.splits)
  then obtain df1 dates df3 dates' dd where 1: "ffill_fields df = Inr df1"
    and 2: "getitem ''Date'' (drop_columns [''No data found''] df1) = Inr dates"
    and 3: "insert_column 1 ''DateTime'' (to_datetime parse dates)
              (drop_columns [''No data found''] df1) = Inr df3"
    and 4: "getitem ''Date'' df3 = Inr dates'"
    and rep: "rep = clean_dishes (setitem ''Date'' (dt_date (to_datetime parse dates')) df3)"
    and 5: "drop_duplicates ''OR No'' rep = Inr dd"
    and 6: "getitem_columns dish_columns rep = Inr items"
    and tx: "tx = drop_columns [''Dishes'', ''Dish Quantities''] dd"
    by blast
  define df2 where "df2 = drop_columns [''No data found''] df1"
  from 3 have dt: "''DateTime'' \<notin> set (columns df2)" and len: "1 \<le> length df2"
    and df3: "df3 = take 1 df2 @ (''DateTime'', to_datetime parse dates) # drop 1 df2"
    unfolding df2_def by (simp_all add: insert_column_Inr)
  from 2 have d2: "map_of df2 ''Date'' = Some dates" by (simp add: getitem_Inr df2_def)
  have "map_of df3 ''Date'' = Some dates"
    unfolding df3 map_of_insert [OF dt] using d2 by simp
  with 4 have same: "dates' = dates" by (simp add: getitem_Inr)
  from 5 obtain keys where k: "map_of rep ''OR No'' = Some keys"
    and dd: "dd = map (\<lambda>col. (fst col, select_rows (map Not (duplicated [] keys)) (snd col))) rep"
    unfolding drop_duplicates_Inr by blast
  from 6 have dc: "set dish_columns \<subseteq> set (columns rep)"
    and its: "items = map (\<lambda>l. (l, the (map_of rep l))) dish_columns"
    by (simp_all add: getitem_columns_Inr)
  from len have ne: "df2 \<noteq> []" by auto
  show ?thesis
    using 1 df2_def d2 dt ne df3 rep [unfolded same] k dd tx dc its by blast
qed

lemma ffill_nth:
  "i < length xs \<Longrightarrow>
   ffill xs ! i =
     (case filter (\<lambda>v. \<not> isna v) (take (Suc i) xs) of [] \<Rightarrow> xs ! i | v # vs \<Rightarrow> last (v # vs))"
  unfolding ffill_def by (simp add: ffill_from_nth split: list.splits)

lemma set_take_drop_insert:
  "set (take n xs @ x # drop n xs) = insert x (set xs)"
proof -
  have "set (take n xs) \<union> set (drop n xs) = set xs"
    by (metis append_take_drop_id set_append)
  then show ?thesis by auto
qed

lemma process_report_report:
  assumes pr: "process_report parse df = Inr (rep, tx, items)"
  shows "columns rep =
           take 1 (filter (\<lambda>l. l \<notin> set [''No data found'']) (columns df)) @ ''DateTime'' #
           drop 1 (filter (\<lambda>l. l \<notin> set [''No data found'']) (columns df))"
    and "k \<notin> set [''Date'', ''DateTime'', ''Dishes'', ''No data found''] \<Longrightarrow>
           map_of rep k =
             (if k \<in> set fields_to_fill then map_option ffill (map_of df k) else map_of df k)"
    and "\<exists>raw. map_of df ''Date'' = Some raw \<and>
           map_of rep ''Date'' = Some (dt_date (to_datetime parse (ffill raw)))"
    and "all_len n df \<Longrightarrow> all_len n rep"
    and "rep \<noteq> []"
    and "set fields_to_fill \<subseteq> set (columns df)"
proof -
  from process_report_InrD [OF pr] obtain df1 df2 dates df3 keys where
    1: "ffill_fields df = Inr df1" and df2: "df2 = drop_columns [''No data found''] df1"
    and d2: "map_of df2 ''Date'' = Some dates" and dt: "''DateTime'' \<notin> set (columns df2)"
    and ne: "df2 \<noteq> []"
    and df3: "df3 = take 1 df2 @ (''DateTime'', to_datetime parse dates) # drop 1 df2"
    and rep: "rep = clean_dishes (setitem ''Date'' (dt_date (to_datetime parse dates)) df3)"
    by blast
  have m3: "map_of df3 k = (if k = ''DateTime'' then Some (to_datetime parse dates) else map_of df2 k)" for k
    unfolding df3 by (rule map_of_insert [OF dt])
  have date3: "''Date'' \<in> set (columns df3)"
    using d2 by (simp add: in_columns_iff m3)
  have mrep: "map_of rep k =
      (if k = ''Dishes'' then map_option (map (\<lambda>v. Str (clean_dish_name v)))
          (if k = ''Date'' then Some (dt_date (to_datetime parse dates)) else map_of df3 k)
       else if k = ''Date'' then Some (dt_date (to_datetime parse dates)) else map_of df3 k)" for k
    unfolding rep map_of_clean_dishes map_of_setitem [OF date3] by simp
  have c2: "columns df2 = filter (\<lambda>l. l \<notin> set [''No data found'']) (columns df)"
    unfolding df2 columns_drop_columns columns_ffill_fields [OF 1] by simp
  show "columns rep =
           take 1 (filter (\<lambda>l. l \<notin> set [''No data found'']) (columns df)) @ ''DateTime'' #
           drop 1 (filter (\<lambda>l. l \<notin> set [''No data found'']) (columns df))"
  proof -
    have "columns rep = columns df3"
      unfolding rep by (simp add: columns_clean_dishes columns_setitem [OF date3])
    also have "\<dots> = take 1 (columns df2) @ ''DateTime'' # drop 1 (columns df2)"
      unfolding df3 by (rule columns_insert)
    finally show ?thesis unfolding c2 .
  qed
  show "map_of rep k =
          (if k \<in> set fields_to_fill then map_option ffill (map_of df k) else map_of df k)"
    if "k \<notin> set [''Date'', ''DateTime'', ''Dishes'', ''No data found'']"
  proof -
    from that have "map_of rep k = map_of df1 k"
      by (simp add: mrep m3 df2 map_of_drop_columns)
    then show ?thesis by (simp only: map_of_ffill_fields [OF 1])
  qed
  show "\<exists>raw. map_of df ''Date'' = Some raw \<and>
          map_of rep ''Date'' = Some (dt_date (to_datetime parse (ffill raw)))"
  proof -
    from d2 have "map_of df1 ''Date'' = Some dates"
      by (simp add: df2 map_of_drop_columns)
    then have "map_option ffill (map_of df ''Date'') = Some dates"
      by (simp add: map_of_ffill_fields [OF 1] fields_to_fill_def)
    then obtain raw where "map_of df ''Date'' = Some raw" and "dates = ffill raw" by auto
    then show ?thesis by (simp add: mrep)
  qed
  show "all_len n rep" if n: "all_len n df"
  proof -
    have a2: "all_len n df2"
      unfolding df2 by (intro all_len_drop_columns all_len_ffill_fields [OF n 1])
    have ld: "length dates = n" using all_len_map_of [OF a2 d2] .
    have "all_len n df3"
      unfolding df3 using a2 by (rule all_len_insert) (simp add: to_datetime_def ld)
    then have "all_len n (setitem ''Date'' (dt_date (to_datetime parse dates)) df3)"
      by (rule all_len_setitem) (simp_all add: dt_date_def to_datetime_def ld date3)
    then show ?thesis unfolding rep by (rule all_len_clean_dishes)
  qed
  show "rep \<noteq> []"
  proof
    assume "rep = []"
    then have "map_of rep ''Date'' = None" by simp
    then show False by (simp add: mrep)
  qed
  show "set fields_to_fill \<subseteq> set (columns df)"
    using ffill_fields_Inr [OF 1] by simp
qed

subsection \<open>The example run\<close>

lemma example_run:
  "process_report example_parse example_df = Inr (example_report, example_transactions, example_dishes)"
  by code_simp

lemma wf_example_df: "wf_df example_df"
  by (simp add: wf_df_def example_df_def nrows_def)

subsection \<open>Claims about \<open>process_report\<close>\<close>

text \<open>
  Claim C5, as the code has it. When \<open>process_report\<close> succeeds, the columns \<open>POS Name\<close>,
  \<open>Cashier Name\<close> and \<open>Transaction No\<close> of the report are the forward fill of the input's
  columns, each from its own values only. The \<open>Date\<close> column is forward-filled in the same
  way and then overwritten (line 80) by the calendar date read from each filled value, which
  is \<open>NaT\<close> where the value is missing or is not a date. Forward fill keeps the length;
  the value at row \<open>i\<close> is the last value that is not missing among rows \<open>0..i\<close>, or the
  row's own missing value when there is none; and \<open>[A, blank, blank, B, blank]\<close> becomes
  \<open>[A, A, A, B, B]\<close>.
\<close>

theorem report_header_columns_forward_filled:
  assumes pr: "process_report parse df = Inr (rep, tx, items)"
  shows "(\<forall>l\<in>set [''POS Name'', ''Cashier Name'', ''Transaction No''].
            \<exists>raw. map_of df l = Some raw \<and> map_of rep l = Some (ffill raw)) \<and>
         (\<exists>raw. map_of df ''Date'' = Some raw \<and>
            map_of rep ''Date'' = Some (dt_date (to_datetime parse (ffill raw)))) \<and>
         (\<forall>xs :: 'n cell list. length (ffill xs) = length xs \<and>
            (\<forall>i<length xs. ffill xs ! i =
               (case filter (\<lambda>v. \<not> isna v) (take (Suc i) xs) of
                  [] \<Rightarrow> xs ! i
                | v # vs \<Rightarrow> last (v # vs)))) \<and>
         (\<forall>a b :: 'n cell. \<not> isna a \<and> \<not> isna b \<longrightarrow>
            ffill [a, NaN, NaN, b, NaN] = [a, a, a, b, b])"
proof (intro conjI)
  show "\<forall>l\<in>set [''POS Name'', ''Cashier Name'', ''Transaction No''].
            \<exists>raw. map_of df l = Some raw \<and> map_of rep l = Some (ffill raw)"
  proof
    fix l :: string
    assume l: "l \<in> set [''POS Name'', ''Cashier Name'', ''Transaction No'']"
    then have a: "l \<notin> set [''Date'', ''DateTime'', ''Dishes'', ''No data found'']"
      and b: "l \<in> set fields_to_fill"
      by (auto simp: fields_to_fill_def)
    from b process_report_report(6) [OF pr] have "l \<in> set (columns df)" by blast
    then obtain raw where raw: "map_of df l = Some raw" by (auto simp: in_columns_iff)
    from process_report_report(2) [OF pr a] b raw
    have "map_of rep l = Some (ffill raw)" by simp
    with raw show "\<exists>raw. map_of df l = Some raw \<and> map_of rep l = Some (ffill raw)" by blast
  qed
  show "\<exists>raw. map_of df ''Date'' = Some raw \<and>
            map_of rep ''Date'' = Some (dt_date (to_datetime parse (ffill raw)))"
    by (rule process_report_report(3) [OF pr])
  show "\<forall>xs :: 'n cell list. length (ffill xs) = length xs \<and>
            (\<forall>i<length xs. ffill xs ! i =
               (case filter (\<lambda>v. \<not> isna v) (take (Suc i) xs) of
                  [] \<Rightarrow> xs ! i
                | v # vs \<Rightarrow> last (v # vs)))"
    using length_ffill ffill_nth by blast
  show "\<forall>a b :: 'n cell. \<not> isna a \<and> \<not> isna b \<longrightarrow>
            ffill [a, NaN, NaN, b, NaN] = [a, a, a, b, b]"
    by (simp add: ffill_def)
qed

theorem report_header_columns_forward_filled_witness:
  "process_report example_parse example_df
     = Inr (example_report, example_transactions, example_dishes) \<and>
   map_of example_report ''Cashier Name'' = Some (ffill [Str ''Ana'', NaN, NaN, Str ''Ben'', NaN]) \<and>
   ffill [Str ''Ana'', NaN, NaN, Str ''Ben'', NaN :: int cell]
     = [Str ''Ana'', Str ''Ana'', Str ''Ana'', Str ''Ben'', Str ''Ben'']"
proof -
  note t = report_header_columns_forward_filled [OF example_run]
  from t have "\<forall>l\<in>set [''POS Name'', ''Cashier Name'', ''Transaction No''].
      \<exists>raw. map_of example_df l = Some raw \<and> map_of example_report l = Some (ffill raw)"
    by (rule conjunct1)
  then have "\<exists>raw. map_of example_df ''Cashier Name'' = Some raw \<and>
      map_of example_report ''Cashier Name'' = Some (ffill raw)"
    by simp
  moreover have "map_of example_df ''Cashier Name'' = Some [Str ''Ana'', NaN, NaN, Str ''Ben'', NaN]"
    by (simp add: example_df_def)
  ultimately have a: "map_of example_report ''Cashier Name''
      = Some (ffill [Str ''Ana'', NaN, NaN, Str ''Ben'', NaN])"
    by auto
  from t have "\<forall>a b :: int cell. \<not> isna a \<and> \<not> isna b \<longrightarrow> ffill [a, NaN, NaN, b, NaN] = [a, a, a, b, b]"
    by blast
  then have b: "ffill [Str ''Ana'', NaN, NaN, Str ''Ben'', NaN :: int cell]
      = [Str ''Ana'', Str ''Ana'', Str ''Ana'', Str ''Ben'', Str ''Ben'']"
    by simp
  show ?thesis using example_run a b by (intro conjI)
qed

text \<open>
  Claim C5 as stated fails for \<open>Date\<close>: with the dates \<open>[n/a, blank]\<close> the forward fill
  is \<open>[n/a, n/a]\<close>, and the report's \<open>Date\<close> column is \<open>[NaT, NaT]\<close>: both rows are
  blank although a value that is not blank came first.
\<close>

theorem report_date_not_forward_filled_text:
  "map_of undated_df ''Date'' = Some [Str ''n/a'', NaN] \<and>
   ffill [Str ''n/a'', NaN :: int cell] = [Str ''n/a'', Str ''n/a''] \<and>
   process_report example_parse undated_df =
     Inr ([(''Date'', [NaT, NaT]), (''DateTime'', [NaT, NaT]),
           (''POS Name'', [Str ''POS1'', Str ''POS1'']),
           (''Cashier Name'', [Str ''Ana'', Str ''Ana'']),
           (''Transaction No'', [Num 7, Num 7]), (''OR No'', [Num 1, Num 1]),
           (''Dishes'', [Str ''RICE'', Str ''TEA'']),
           (''Dish Quantities'', [Num 1, Num 2])],
          [(''Date'', [NaT]), (''DateTime'', [NaT]),
           (''POS Name'', [Str ''POS1'']), (''Cashier Name'', [Str ''Ana'']),
           (''Transaction No'', [Num 7]), (''OR No'', [Num 1])],
          [(''OR No'', [Num 1, Num 1]), (''DateTime'', [NaT, NaT]),
           (''Date'', [NaT, NaT]), (''POS Name'', [Str ''POS1'', Str ''POS1'']),
           (''Cashier Name'', [Str ''Ana'', Str ''Ana'']),
           (''Transaction No'', [Num 7, Num 7]),
           (''Dishes'', [Str ''RICE'', Str ''TEA'']),
           (''Dish Quantities'', [Num 1, Num 2])])"
  by code_simp

text \<open>
  Claim C6: when \<open>process_report\<close> succeeds on a well-formed table, the transactions have
  the report's columns but \<open>Dishes\<close> and \<open>Dish Quantities\<close>; their \<open>OR No\<close> column lists
  each value of the report's \<open>OR No\<close> column once, in order of first appearance (a missing
  \<open>OR No\<close> counts as one value); the number of rows is the number of distinct values; and
  every column holds the values of the rows whose \<open>OR No\<close> does not occur in a row above,
  that is, of the first row of each key. Dropping \<open>Dishes\<close> and \<open>Dish Quantities\<close> from
  a table that has neither changes nothing and raises nothing.
\<close>

theorem transactions_one_row_per_or_no:
  assumes wf: "wf_df df" and pr: "process_report parse df = Inr (rep, tx, items)"
  shows "\<exists>keys. map_of rep ''OR No'' = Some keys \<and>
           columns tx = filter (\<lambda>l. l \<notin> set [''Dishes'', ''Dish Quantities'']) (columns rep) \<and>
           map_of tx ''OR No'' = Some (first_seen [] keys) \<and>
           distinct (first_seen [] keys) \<and> set (first_seen [] keys) = set keys \<and>
           nrows tx = card (set keys) \<and>
           (\<forall>l xs. map_of rep l = Some xs \<and> l \<notin> set [''Dishes'', ''Dish Quantities''] \<longrightarrow>
              map_of tx l =
                Some (map (\<lambda>i. xs ! i)
                       (filter (\<lambda>i. keys ! i \<notin> set (take i keys)) [0..<length keys]))) \<and>
           (\<forall>d :: 'n dataframe.
              set [''Dishes'', ''Dish Quantities''] \<inter> set (columns d) = {} \<longrightarrow>
                drop_columns [''Dishes'', ''Dish Quantities''] d = d)"
proof -
  from process_report_InrD [OF pr] obtain keys where
    k: "map_of rep ''OR No'' = Some keys"
    and tx: "tx = drop_columns [''Dishes'', ''Dish Quantities'']
            (map (\<lambda>col. (fst col, select_rows (map Not (duplicated [] keys)) (snd col))) rep)"
    by blast
  define sel :: "'a cell list \<Rightarrow> 'a cell list"
    where "sel = select_rows (map Not (duplicated [] keys))"
  define n where "n = nrows df"
  have an: "all_len n rep"
    using process_report_report(4) [OF pr wf_df_all_len [OF wf]] by (simp add: n_def)
  have lk: "length keys = n" using all_len_map_of [OF an k] .
  have mtx: "map_of tx l =
      (if l \<in> set [''Dishes'', ''Dish Quantities''] then None else map_option sel (map_of rep l))" for l
    unfolding tx map_of_drop_columns sel_def [symmetric]
    using map_of_relabel [where h = "\<lambda>l. sel" and df = rep and l = l] by simp
  have ctx: "columns tx = filter (\<lambda>l. l \<notin> set [''Dishes'', ''Dish Quantities'']) (columns rep)"
    unfolding tx columns_drop_columns by (simp add: columns_def comp_def)
  have selk: "sel keys = first_seen [] keys"
    unfolding sel_def by (rule select_rows_first_seen)
  have or_tx: "map_of tx ''OR No'' = Some (first_seen [] keys)"
    by (simp add: mtx k selk)
  have sel_len: "length (sel xs) = length (first_seen [] keys)" if "length xs = n" for xs
  proof -
    have "length (sel xs) = length (filter id (map Not (duplicated [] keys)))"
      unfolding sel_def by (rule length_select_rows) (simp add: that lk length_duplicated)
    also have "\<dots> = length (sel keys)"
      unfolding sel_def by (rule length_select_rows [symmetric]) (simp add: length_duplicated)
    finally show ?thesis by (simp add: selk)
  qed
  have "all_len (length (first_seen [] keys)) tx"
    unfolding all_len_def
  proof
    fix c assume "c \<in> set tx"
    then obtain col where col: "col \<in> set rep" and c: "c = (fst col, sel (snd col))"
      unfolding tx drop_columns_def sel_def by auto
    from an col have "length (snd col) = n" by (simp add: all_len_def)
    then show "length (snd c) = length (first_seen [] keys)" using c sel_len by simp
  qed
  moreover have "tx \<noteq> []" using or_tx by auto
  ultimately have "nrows tx = length (first_seen [] keys)" by (rule all_len_nrows)
  also have "\<dots> = card (set (first_seen [] keys))"
    by (rule distinct_card [symmetric]) (rule distinct_first_seen)
  finally have rows: "nrows tx = card (set keys)" by (simp add: set_first_seen)
  have pick: "map_of tx l =
      Some (map (\<lambda>i. xs ! i) (filter (\<lambda>i. keys ! i \<notin> set (take i keys)) [0..<length keys]))"
    if xs: "map_of rep l = Some xs" and l: "l \<notin> set [''Dishes'', ''Dish Quantities'']" for l xs
  proof -
    have lx: "length xs = length (map Not (duplicated [] keys))"
      using all_len_map_of [OF an xs] by (simp add: lk length_duplicated)
    have "sel xs = map (\<lambda>i. xs ! i)
        (filter (\<lambda>i. map Not (duplicated [] keys) ! i) [0..<length (map Not (duplicated [] keys))])"
      unfolding sel_def by (rule select_rows_nth [OF lx])
    also have "filter (\<lambda>i. map Not (duplicated [] keys) ! i) [0..<length (map Not (duplicated [] keys))]
        = filter (\<lambda>i. keys ! i \<notin> set (take i keys)) [0..<length keys]"
      by (rule filter_cong) (simp_all add: length_duplicated duplicated_nth)
    finally show ?thesis using xs l by (simp add: mtx)
  qed
  have tol: "\<forall>d :: 'n dataframe.
      set [''Dishes'', ''Dish Quantities''] \<inter> set (columns d) = {} \<longrightarrow>
        drop_columns [''Dishes'', ''Dish Quantities''] d = d"
    using drop_columns_absent by blast
  show ?thesis
    using k ctx or_tx distinct_first_seen [of "[]" keys] set_first_seen [of "[]" keys] rows pick tol
    by (intro exI [of _ keys]) simp
qed

theorem transactions_one_row_per_or_no_witness:
  "wf_df example_df \<and>
   process_report example_parse example_df
     = Inr (example_report, example_transactions, example_dishes) \<and>
   map_of example_report ''OR No'' = Some [Num 1, Num 1, Num 2, Num 2, Num 3] \<and>
   map_of example_transactions ''OR No'' = Some [Num 1, Num 2, Num 3] \<and>
   nrows example_transactions = 3"
proof -
  from transactions_one_row_per_or_no [OF wf_example_df example_run]
  obtain keys where k: "map_of example_report ''OR No'' = Some keys"
    and o: "map_of example_transactions ''OR No'' = Some (first_seen [] keys)"
    and n: "nrows example_transactions = card (set keys)"
    by blast
  have "map_of example_report ''OR No'' = Some [Num 1, Num 1, Num 2, Num 2, Num 3]"
    by (simp add: example_report_def)
  with k have keys: "keys = [Num 1, Num 1, Num 2, Num 2, Num 3]" by simp
  from o have o': "map_of example_transactions ''OR No'' = Some [Num 1, Num 2, Num 3]"
    unfolding keys by simp
  from n have n': "nrows example_transactions = 3"
    unfolding keys by simp
  show ?thesis using wf_example_df example_run k [unfolded keys] o' n' by (intro conjI)
qed

text \<open>
  Claim C7: when \<open>process_report\<close> succeeds on a well-formed table, the dishes have as many
  rows as the report (and as the input), in each of the eight projected columns.
\<close>

theorem dishes_same_row_count:
  assumes wf: "wf_df df" and pr: "process_report parse df = Inr (rep, tx, items)"
  shows "nrows items = nrows rep \<and> nrows rep = nrows df \<and>
         columns items = dish_columns \<and>
         (\<forall>col\<in>set items. length (snd col) = nrows rep)"
proof -
  from process_report_InrD [OF pr] have dc: "set dish_columns \<subseteq> set (columns rep)"
    and its: "items = map (\<lambda>l. (l, the (map_of rep l))) dish_columns"
    by blast+
  have an: "all_len (nrows df) rep"
    using process_report_report(4) [OF pr wf_df_all_len [OF wf]] .
  have r: "nrows rep = nrows df"
    using an process_report_report(5) [OF pr] by (rule all_len_nrows)
  have "getitem_columns dish_columns rep = Inr items"
    using dc its by (simp add: getitem_columns_Inr)
  with an have ai: "all_len (nrows df) items" by (rule all_len_getitem_columns)
  moreover have "items \<noteq> []" unfolding its by (simp add: dish_columns_def)
  ultimately have i: "nrows items = nrows df" by (rule all_len_nrows)
  have c: "columns items = dish_columns"
    unfolding its columns_def by (simp add: comp_def)
  show ?thesis using r i c ai by (simp add: all_len_def)
qed

theorem dishes_same_row_count_witness:
  "wf_df example_df \<and>
   process_report example_parse example_df
     = Inr (example_report, example_transactions, example_dishes) \<and>
   nrows example_dishes = 5 \<and> nrows example_report = 5"
proof -
  from dishes_same_row_count [OF wf_example_df example_run]
  have "nrows example_dishes = nrows example_report" and "nrows example_report = nrows example_df"
    by blast+
  moreover have "nrows example_df = 5" by (simp add: nrows_def example_df_def)
  ultimately show ?thesis using wf_example_df example_run by simp
qed

lemma ffill_fields_present:
  "set fields_to_fill \<subseteq> set (columns df) \<Longrightarrow>
   ffill_fields df =
     Inr (setitem_columns (map (\<lambda>l. (l, ffill (the (map_of df l)))) fields_to_fill) df)"
proof -
  assume "set fields_to_fill \<subseteq> set (columns df)"
  then have "getitem_columns fields_to_fill df = Inr (map (\<lambda>l. (l, the (map_of df l))) fields_to_fill)"
    by (simp add: getitem_columns_Inr)
  then show ?thesis by (simp add: ffill_fields_def comp_def)
qed

lemma main_process_error:
  "merge_files files = Inr (out, df) \<Longrightarrow> \<not> df_empty df \<Longrightarrow> process_report parse df = Inl e \<Longrightarrow>
   main parse True writable files = Inl e"
  by (simp add: main_def)

lemma process_report_projection_error:
  assumes f: "set fields_to_fill \<subseteq> set (columns df)"
    and o: "''OR No'' \<in> set (columns df)"
    and d: "''DateTime'' \<notin> set (columns df)"
    and m: "\<not> set [''Dishes'', ''Dish Quantities''] \<subseteq> set (columns df)"
  shows "process_report parse df =
     Inl (KeyError (filter (\<lambda>l. l \<notin> set (columns df)) [''Dishes'', ''Dish Quantities'']))"
proof -
  define df1 where "df1 = setitem_columns (map (\<lambda>l. (l, ffill (the (map_of df l)))) fields_to_fill) df"
  have 1: "ffill_fields df = Inr df1"
    unfolding df1_def by (rule ffill_fields_present [OF f])
  define df2 where "df2 = drop_columns [''No data found''] df1"
  have c2: "columns df2 = filter (\<lambda>l. l \<notin> set [''No data found'']) (columns df)"
    unfolding df2_def columns_drop_columns columns_ffill_fields [OF 1] by simp
  have s2: "set (columns df2) = set (columns df) - {''No data found''}"
    unfolding c2 by auto
  from f have present: "''Date'' \<in> set (columns df)" "''POS Name'' \<in> set (columns df)"
    "''Cashier Name'' \<in> set (columns df)" "''Transaction No'' \<in> set (columns df)"
    by (simp_all add: fields_to_fill_def)
  have "''Date'' \<in> set (columns df2)" using present(1) by (simp add: s2)
  then obtain dates where d2: "map_of df2 ''Date'' = Some dates"
    by (auto simp: in_columns_iff)
  then have 2: "getitem ''Date'' df2 = Inr dates" by (simp add: getitem_Inr)
  have dt: "''DateTime'' \<notin> set (columns df2)" using d by (simp add: s2)
  have ne: "1 \<le> length df2" using d2 by (cases df2) simp_all
  define df3 where "df3 = take 1 df2 @ (''DateTime'', to_datetime parse dates) # drop 1 df2"
  have 3: "insert_column 1 ''DateTime'' (to_datetime parse dates) df2 = Inr df3"
    using dt ne by (simp add: insert_column_Inr df3_def)
  have "map_of df3 ''Date'' = Some dates"
    unfolding df3_def map_of_insert [OF dt] using d2 by simp
  then have 4: "getitem ''Date'' df3 = Inr dates" and date3: "''Date'' \<in> set (columns df3)"
    by (simp_all add: getitem_Inr in_columns_iff)
  define r where "r = clean_dishes (setitem ''Date'' (dt_date (to_datetime parse dates)) df3)"
  have "columns r = columns df3"
    unfolding r_def by (simp add: columns_clean_dishes columns_setitem [OF date3])
  also have "\<dots> = take 1 (columns df2) @ ''DateTime'' # drop 1 (columns df2)"
    unfolding df3_def by (rule columns_insert)
  finally have sr: "set (columns r) = insert ''DateTime'' (set (columns df) - {''No data found''})"
    by (simp only: set_take_drop_insert s2)
  have "''OR No'' \<in> set (columns r)" using o by (simp add: sr)
  then obtain keys where "map_of r ''OR No'' = Some keys" by (auto simp: in_columns_iff)
  then obtain dd where 5: "drop_duplicates ''OR No'' r = Inr dd"
    by (simp add: drop_duplicates_Inr)
  have "\<not> set dish_columns \<subseteq> set (columns r)"
    using m by (auto simp: dish_columns_def sr)
  then have "getitem_columns dish_columns r =
      Inl (KeyError (filter (\<lambda>l. l \<notin> set (columns r)) dish_columns))"
    by (rule getitem_columns_Inl)
  moreover have "filter (\<lambda>l. l \<notin> set (columns r)) dish_columns =
      filter (\<lambda>l. l \<notin> set (columns df)) [''Dishes'', ''Dish Quantities'']"
    using o present by (simp add: dish_columns_def sr)
  ultimately have 6: "getitem_columns dish_columns r =
      Inl (KeyError (filter (\<lambda>l. l \<notin> set (columns df)) [''Dishes'', ''Dish Quantities'']))"
    by simp
  show ?thesis
    by (simp only: process_report_def Let_def 1 sum.case df2_def [symmetric] 2 3 4
        r_def [symmetric] 5 6)
qed

text \<open>
  Claim C8: if one of the seven input columns that the dishes need (\<open>OR No\<close>, \<open>Date\<close>,
  \<open>POS Name\<close>, \<open>Cashier Name\<close>, \<open>Transaction No\<close>, \<open>Dishes\<close>, \<open>Dish Quantities\<close>; the
  eighth, \<open>DateTime\<close>, is made by \<open>process_report\<close> itself) is missing, \<open>process_report\<close>
  raises, and so does the run: no workbook is written. When the missing one is \<open>Dishes\<close> or
  \<open>Dish Quantities\<close> and the earlier statements pass, the exception is the \<open>KeyError\<close> of
  the projection \<open>df[dish_columns]\<close>, naming the missing labels.
\<close>

theorem process_report_missing_dish_column:
  assumes l: "l \<in> set [''OR No'', ''Date'', ''POS Name'', ''Cashier Name'', ''Transaction No'',
                       ''Dishes'', ''Dish Quantities'']"
    and miss: "l \<notin> set (columns df)"
  shows "(\<exists>e. process_report parse df = Inl e) \<and>
         (\<forall>files out writable. merge_files files = Inr (out, df) \<and> \<not> df_empty df \<longrightarrow>
            (\<exists>e. main parse True writable files = Inl e)) \<and>
         (set fields_to_fill \<subseteq> set (columns df) \<and> ''OR No'' \<in> set (columns df) \<and>
          ''DateTime'' \<notin> set (columns df) \<longrightarrow>
            process_report parse df =
              Inl (KeyError (filter (\<lambda>l. l \<notin> set (columns df)) [''Dishes'', ''Dish Quantities''])))"
proof -
  have err: "\<exists>e. process_report parse df = Inl e"
  proof (cases "process_report parse df")
    case (Inl e)
    then show ?thesis by blast
  next
    case (Inr res)
    obtain rep tx items where res: "res = (rep, tx, items)" by (cases res)
    note pr = Inr [unfolded res]
    from process_report_InrD [OF pr] have dc: "set dish_columns \<subseteq> set (columns rep)" by blast
    from l have "l \<in> set dish_columns" and "l \<noteq> ''DateTime''"
      by (auto simp: dish_columns_def)
    with dc have "l \<in> set (columns rep)" by blast
    then have "l \<in> insert ''DateTime''
        (set (filter (\<lambda>l. l \<notin> set [''No data found'']) (columns df)))"
      by (simp only: process_report_report(1) [OF pr] set_take_drop_insert)
    with \<open>l \<noteq> ''DateTime''\<close> have "l \<in> set (columns df)" by simp
    with miss show ?thesis by contradiction
  qed
  have run: "\<forall>files out writable. merge_files files = Inr (out, df) \<and> \<not> df_empty df \<longrightarrow>
            (\<exists>e. main parse True writable files = Inl e)"
    using err main_process_error by blast
  have proj: "process_report parse df =
              Inl (KeyError (filter (\<lambda>l. l \<notin> set (columns df)) [''Dishes'', ''Dish Quantities'']))"
    if f: "set fields_to_fill \<subseteq> set (columns df)" and o: "''OR No'' \<in> set (columns df)"
      and d: "''DateTime'' \<notin> set (columns df)"
  proof -
    from f have "''Date'' \<in> set (columns df)" "''POS Name'' \<in> set (columns df)"
      "''Cashier Name'' \<in> set (columns df)" "''Transaction No'' \<in> set (columns df)"
      by (simp_all add: fields_to_fill_def)
    with l miss o have "l = ''Dishes'' \<or> l = ''Dish Quantities''" by auto
    with miss have "\<not> set [''Dishes'', ''Dish Quantities''] \<subseteq> set (columns df)" by auto
    with f o d show ?thesis by (rule process_report_projection_error)
  qed
  show ?thesis using err run proj by blast
qed

theorem process_report_missing_dish_column_witness:
  "''Dishes'' \<notin> set (columns (drop_columns [''Dishes''] example_df)) \<and>
   process_report example_parse (drop_columns [''Dishes''] example_df) = Inl (KeyError [''Dishes''])"
proof -
  have cols: "columns (drop_columns [''Dishes''] example_df) =
      [''Date'', ''POS Name'', ''Cashier Name'', ''Transaction No'', ''OR No'',
       ''Dish Quantities'', ''No data found'']"
    by (simp add: columns_def drop_columns_def example_df_def)
  have h1: "''Dishes'' \<in> set [''OR No'', ''Date'', ''POS Name'', ''Cashier Name'',
      ''Transaction No'', ''Dishes'', ''Dish Quantities'']" by simp
  have h2: "''Dishes'' \<notin> set (columns (drop_columns [''Dishes''] example_df))"
    unfolding cols by simp
  from process_report_missing_dish_column [OF h1 h2, of example_parse]
  have "set fields_to_fill \<subseteq> set (columns (drop_columns [''Dishes''] example_df)) \<and>
      ''OR No'' \<in> set (columns (drop_columns [''Dishes''] example_df)) \<and>
      ''DateTime'' \<notin> set (columns (drop_columns [''Dishes''] example_df)) \<longrightarrow>
      process_report example_parse (drop_columns [''Dishes''] example_df) =
        Inl (KeyError (filter (\<lambda>l. l \<notin> set (columns (drop_columns [''Dishes''] example_df)))
          [''Dishes'', ''Dish Quantities'']))"
    by blast
  then have "process_report example_parse (drop_columns [''Dishes''] example_df) = Inl (KeyError [''Dishes''])"
    unfolding cols by (simp add: fields_to_fill_def)
  with h2 show ?thesis by (intro conjI)
qed

text \<open>
  Claim C10: if one of the four columns of \<open>fields_to_fill\<close> is missing, \<open>process_report\<close>
  raises \<open>KeyError\<close> with the missing labels at the forward-fill statement, and the run
  ends with it. The later statements on \<open>No data found\<close>, \<open>Dishes\<close> and
  \<open>Dish Quantities\<close> are tolerant: on a table without the column they change nothing.
\<close>

theorem process_report_missing_header_column:
  assumes l: "l \<in> set fields_to_fill" and miss: "l \<notin> set (columns df)"
  shows "process_report parse df =
           Inl (KeyError (filter (\<lambda>l. l \<notin> set (columns df)) fields_to_fill)) \<and>
         (\<forall>files out writable. merge_files files = Inr (out, df) \<and> \<not> df_empty df \<longrightarrow>
            main parse True writable files =
              Inl (KeyError (filter (\<lambda>l. l \<notin> set (columns df)) fields_to_fill))) \<and>
         (\<forall>d :: 'n dataframe.
            (''No data found'' \<notin> set (columns d) \<longrightarrow> drop_columns [''No data found''] d = d) \<and>
            (''Dishes'' \<notin> set (columns d) \<longrightarrow> clean_dishes d = d) \<and>
            (''Dishes'' \<notin> set (columns d) \<and> ''Dish Quantities'' \<notin> set (columns d) \<longrightarrow>
               drop_columns [''Dishes'', ''Dish Quantities''] d = d))"
proof -
  from l miss have "\<not> set fields_to_fill \<subseteq> set (columns df)" by blast
  then have "ffill_fields df = Inl (KeyError (filter (\<lambda>l. l \<notin> set (columns df)) fields_to_fill))"
    by (rule ffill_fields_Inl)
  then have err: "process_report parse df =
      Inl (KeyError (filter (\<lambda>l. l \<notin> set (columns df)) fields_to_fill))"
    by (simp add: process_report_def)
  have run: "\<forall>files out writable. merge_files files = Inr (out, df) \<and> \<not> df_empty df \<longrightarrow>
            main parse True writable files =
              Inl (KeyError (filter (\<lambda>l. l \<notin> set (columns df)) fields_to_fill))"
    using err main_process_error by blast
  have tol: "\<forall>d :: 'n dataframe.
            (''No data found'' \<notin> set (columns d) \<longrightarrow> drop_columns [''No data found''] d = d) \<and>
            (''Dishes'' \<notin> set (columns d) \<longrightarrow> clean_dishes d = d) \<and>
            (''Dishes'' \<notin> set (columns d) \<and> ''Dish Quantities'' \<notin> set (columns d) \<longrightarrow>
               drop_columns [''Dishes'', ''Dish Quantities''] d = d)"
    by (simp add: drop_columns_absent clean_dishes_absent)
  show ?thesis using err run tol by blast
qed

theorem process_report_missing_header_column_witness:
  "''POS Name'' \<in> set fields_to_fill \<and>
   ''POS Name'' \<notin> set (columns [(''Date'', [Str ''2024-01-01'' :: int cell])]) \<and>
   process_report example_parse [(''Date'', [Str ''2024-01-01''])]
     = Inl (KeyError [''POS Name'', ''Cashier Name'', ''Transaction No''])"
proof -
  have h1: "''POS Name'' \<in> set fields_to_fill" by (simp add: fields_to_fill_def)
  have h2: "''POS Name'' \<notin> set (columns [(''Date'', [Str ''2024-01-01'' :: int cell])])"
    by (simp add: columns_def)
  from process_report_missing_header_column [OF h1 h2, of example_parse]
  have "process_report example_parse [(''Date'', [Str ''2024-01-01''])] =
      Inl (KeyError (filter (\<lambda>l. l \<notin> set (columns [(''Date'', [Str ''2024-01-01'' :: int cell])]))
        fields_to_fill))"
    by blast
  then have "process_report example_parse [(''Date'', [Str ''2024-01-01''])]
      = Inl (KeyError [''POS Name'', ''Cashier Name'', ''Transaction No''])"
    by (simp add: columns_def fields_to_fill_def)
  with h1 h2 show ?thesis by (intro conjI)
qed

section \<open>Properties of the file ingestor and of the run\<close>

text \<open>
  A failure of the first \<open>read_csv\<close> that is not a decoding failure is caught: the file is
  logged and skipped and the loop goes on. When every file fails in that way, the result is
  the empty table and one line per file, and the run ends with the warning and no workbook.
  The loop returns whenever no file fails in its second read.
\<close>

lemma merge_loop_read_failures:
  "\<forall>f\<in>set files. \<exists>m. read_gbk f = ReadFailure m \<Longrightarrow>
   \<exists>out'. merge_loop files out dfs = Inr (out @ out', dfs) \<and> length out' = length files"
proof (induction files arbitrary: out)
  case Nil
  then show ?case by simp
next
  case (Cons f fs)
  then obtain m where m: "read_gbk f = ReadFailure m" by auto
  from Cons.IH [of "out @ [error_line (file_name f) m]"] Cons.prems
  obtain out' where "merge_loop fs (out @ [error_line (file_name f) m]) dfs
      = Inr ((out @ [error_line (file_name f) m]) @ out', dfs)" and "length out' = length fs"
    by auto
  then have "merge_loop (f # fs) out dfs = Inr (out @ (error_line (file_name f) m # out'), dfs)
      \<and> length (error_line (file_name f) m # out') = length (f # fs)"
    using m by simp
  then show ?case by blast
qed

lemma merge_files_nothing_read:
  "\<forall>f\<in>set files. \<exists>m. read_gbk f = ReadFailure m \<Longrightarrow>
   \<exists>out. merge_files files = Inr (out, []) \<and> length out = length files"
  using merge_loop_read_failures [of files "[]" "[]"] by (auto simp: merge_files_def)

lemma main_nothing_read:
  "\<forall>f\<in>set files. \<exists>m. read_gbk f = ReadFailure m \<Longrightarrow>
   \<exists>out. main parse True writable files =
     Inr (out @ [''[WARNING] No valid .xls files found or all files failed to load.''], None)"
  using merge_files_nothing_read [of files] by (auto simp: main_def df_empty_def)

lemma merge_loop_returns:
  "\<forall>f\<in>set files. (\<exists>m. read_gbk f = DecodeFailure m) \<longrightarrow> (\<exists>df. read_utf8 f = Parsed df) \<Longrightarrow>
   \<exists>res. merge_loop files out dfs = Inr res"
proof (induction files arbitrary: out dfs)
  case Nil
  then show ?case by simp
next
  case (Cons f fs)
  then show ?case
    by (cases "read_gbk f") (auto split: read_result.splits)
qed

text \<open>
  Claim C3 does not hold of the code. The claim: every parsing failure beyond the GBK decode
  failure, the failure of the UTF-8 retry included, is caught, logged, and the file skipped,
  while the other files are still read. The code: the retry runs inside the handler of
  \<open>UnicodeDecodeError\<close>, where the \<open>except Exception\<close> clause of the same \<open>try\<close> does not
  apply, so a file that decodes in neither encoding ends \<open>merge_files\<close> with the exception
  and the valid file after it is never read.
\<close>

theorem merge_files_retry_failure_escapes:
  "merge_files [undecodable_file, valid_file]
     = Inl (UnicodeDecodeError ''utf-8 codec cannot decode byte 0xff'')"
  by (simp add: merge_files_def undecodable_file_def)

text \<open>
  Claim C9 does not hold of the code, by the same defect. The claim: when no file parses,
  \<open>merge_files\<close> returns an empty table and the run reports a warning and writes nothing.
  The code: with one file that decodes in neither encoding, no file parses, and the run ends
  with \<open>UnicodeDecodeError\<close> instead of the warning.
\<close>

theorem main_aborts_when_retry_fails:
  "main parse True writable [undecodable_file]
     = Inl (UnicodeDecodeError ''utf-8 codec cannot decode byte 0xff'')"
  by (simp add: main_def merge_files_def undecodable_file_def)

end
